theory Spec2Isabelle
  imports Main "HOL-Library.Sublist"
begin

section \<open>Strings as the supervisor uses them\<close>

text \<open>
  The process supervisor of the launcher: \<open>ServerManager\<close> (the primary service) and
  \<open>TunnelManager\<close> (the cloudflared tunnel), with the parts of Node they rest on: child
  processes and their events, time-outs, the event emitter, the file system below
  \<open><userData>\<close>, and the configuration store.

  JavaScript strings are modelled as \<open>string\<close> (lists of \<open>char\<close>). The supervisor only
  inspects ASCII text: marker phrases, a host-name pattern and white space at both ends.
  \<open>trim\<close> removes the ASCII white space; the other white space of JavaScript
  (\<open>U+00A0\<close>, \<open>U+FEFF\<close>, the Unicode spaces and line separators) is not a single
  \<open>char\<close> here and is left in place.
\<close>

definition str_includes :: "string \<Rightarrow> string \<Rightarrow> bool" where
  \<comment> \<open>\<open>msg.includes(pat)\<close>\<close>
  "str_includes msg pat = sublist pat msg"

definition is_ws :: "char \<Rightarrow> bool" where
  \<comment> \<open>tab, line feed, vertical tab, form feed, carriage return, space\<close>
  "is_ws c = (c \<in> set [CHR 0x09, CHR 0x0A, CHR 0x0B, CHR 0x0C, CHR 0x0D, CHR 0x20])"

definition trim :: "string \<Rightarrow> string" where
  \<comment> \<open>\<open>s.trim()\<close>\<close>
  "trim s = rev (dropWhile is_ws (rev (dropWhile is_ws s)))"

definition toUpper :: "char \<Rightarrow> char" where
  "toUpper c =
     (case map_of (zip ''abcdefghijklmnopqrstuvwxyz'' ''ABCDEFGHIJKLMNOPQRSTUVWXYZ'') c of
        Some u \<Rightarrow> u
      | None \<Rightarrow> c)"

definition toUpperCase :: "string \<Rightarrow> string" where
  "toUpperCase s = map toUpper s"

text \<open>
  A port is a whole number here and is printed in decimal, as JavaScript prints the
  numbers 1 to 65535 that \<open>server:set-port\<close> lets through.
\<close>

definition digit_char :: "nat \<Rightarrow> char" where
  "digit_char d = ''0123456789'' ! (d mod 10)"

function string_of_nat :: "nat \<Rightarrow> string" where
  "string_of_nat n =
     (if n < 10 then [digit_char n] else string_of_nat (n div 10) @ [digit_char (n mod 10)])"
  by pat_completeness auto
termination
  by (relation "measure (\<lambda>n. n)") auto

declare string_of_nat.simps [simp del]

definition string_of_code :: "int option \<Rightarrow> string" where
  \<comment> \<open>the exit code inside a template string: a number or \<open>null\<close>\<close>
  "string_of_code code =
     (case code of
        None \<Rightarrow> ''null''
      | Some i \<Rightarrow> (if i < 0 then ''-'' @ string_of_nat (nat (- i)) else string_of_nat (nat i)))"

subsection \<open>The quick-tunnel pattern\<close>

text \<open>
  \<^verbatim>\<open>/https:\/\/[a-z0-9-]+\.trycloudflare\.com/i\<close>: a literal, a greedy run of label
  characters of length at least one, a literal; letters match in either case. \<open>match\<close>
  returns the leftmost match, and within it the longest label run for which the rest of
  the pattern still matches (the run is shortened one character at a time otherwise).
\<close>

definition is_label_char :: "char \<Rightarrow> bool" where
  "is_label_char c = (toUpper c \<in> set ''ABCDEFGHIJKLMNOPQRSTUVWXYZ0123456789-'')"

fun ci_prefix :: "string \<Rightarrow> string \<Rightarrow> bool" where
  "ci_prefix [] s = True"
| "ci_prefix (p # ps) [] = False"
| "ci_prefix (p # ps) (c # cs) = (toUpper p = toUpper c \<and> ci_prefix ps cs)"

fun label_then_host :: "string \<Rightarrow> nat \<Rightarrow> nat option" where
  "label_then_host s 0 = None"
| "label_then_host s (Suc n) =
     (if ci_prefix ''.trycloudflare.com'' (drop (Suc n) s) then Some (Suc n)
      else label_then_host s n)"

definition match_at :: "string \<Rightarrow> string option" where
  "match_at s =
     (if ci_prefix ''https://'' s then
        (case label_then_host (drop 8 s) (length (takeWhile is_label_char (drop 8 s))) of
           Some n \<Rightarrow> Some (take (8 + n + 18) s)
         | None \<Rightarrow> None)
      else None)"

fun quickTunnelMatch :: "string \<Rightarrow> string option" where
  "quickTunnelMatch [] = None"
| "quickTunnelMatch (c # cs) =
     (case match_at (c # cs) of
        Some m \<Rightarrow> Some m
      | None \<Rightarrow> quickTunnelMatch cs)"

text \<open>
  The pattern in words: \<open>https://\<close>, a non-empty label of letters, digits and hyphens,
  \<open>.trycloudflare.com\<close>; \<open>quick_url_ci\<close> allows letters of either case.
\<close>

definition quick_url :: "string \<Rightarrow> bool" where
  "quick_url u =
     (\<exists>lbl. u = ''https://'' @ lbl @ ''.trycloudflare.com'' \<and> lbl \<noteq> [] \<and>
        (\<forall>c \<in> set lbl. c \<in> set ''abcdefghijklmnopqrstuvwxyz0123456789-''))"

definition quick_url_ci :: "string \<Rightarrow> bool" where
  "quick_url_ci u =
     (\<exists>sch lbl host. u = sch @ lbl @ host \<and> toUpperCase sch = ''HTTPS://'' \<and> lbl \<noteq> [] \<and>
        (\<forall>c \<in> set lbl. is_label_char c) \<and> toUpperCase host = ''.TRYCLOUDFLARE.COM'')"

section \<open>Data model\<close>

datatype ServerStatus = Idle | Extracting | Migrating | Starting | Running | Stopping | Error

datatype TunnelStatus = TIdle | TStarting | TRunning | TStopping | TError

fun server_status_str :: "ServerStatus \<Rightarrow> string" where
  "server_status_str Idle = ''idle''"
| "server_status_str Extracting = ''extracting''"
| "server_status_str Migrating = ''migrating''"
| "server_status_str Starting = ''starting''"
| "server_status_str Running = ''running''"
| "server_status_str Stopping = ''stopping''"
| "server_status_str Error = ''error''"

fun tunnel_status_str :: "TunnelStatus \<Rightarrow> string" where
  "tunnel_status_str TIdle = ''idle''"
| "tunnel_status_str TStarting = ''starting''"
| "tunnel_status_str TRunning = ''running''"
| "tunnel_status_str TStopping = ''stopping''"
| "tunnel_status_str TError = ''error''"

text \<open>A thrown JavaScript error: its \<open>name\<close> and its \<open>message\<close>.\<close>

datatype err = JsError (err_name: string) (message: string)

datatype signal = SIGTERM | SIGKILL

type_synonym pid = nat

text \<open>
  What a manager does that is visible outside it, in the order it happens: events handed
  to its listeners, lines written through the logger, processes spawned and signalled, and
  the calls of \<open>resolve\<close> on the promise that a \<open>stop()\<close> returned (named by the number of
  the timer that \<open>stop()\<close> created with it).
\<close>

datatype 'st effect =
    Emit_log string
  | Emit_status 'st
  | Emit_url "string option"
  | Emit_error err
  | Logger string string
  | Spawn pid string "string list" "(string \<times> string) list"
  | Kill pid signal
  | Resolve nat

text \<open>
  The part shared by both managers. \<open>childProcess\<close> is \<open>serverProcess\<close> in
  \<open>ServerManager\<close> and \<open>tunnelProcess\<close> in \<open>TunnelManager\<close>. \<open>errorListeners\<close> counts the
  listeners registered on the manager for \<open>'error'\<close>. \<open>exitHooks\<close> are the \<open>'exit'\<close>
  listeners that \<open>stop()\<close> has put on child processes, each with the timer it clears;
  \<open>timers\<close> are the pending time-outs. \<open>server_dir\<close> is the directory
  \<open><userData>/server\<close>: absent, or its files by relative path.
\<close>

record 'st managed =
  status :: 'st
  childProcess :: "pid option"
  errorListeners :: nat
  exitHooks :: "(pid \<times> nat) list"
  timers :: "nat list"
  nextPid :: nat
  nextTimer :: nat
  trace :: "'st effect list"
  server_dir :: "(string \<rightharpoonup> string) option"

record server_state = "ServerStatus managed" +
  port :: nat
  data_db :: "string option"
  server_zip :: "(string \<rightharpoonup> string) option"
  cfg_serverPort :: "nat option"
  cfg_serverVersion :: "string option"
  cfg_chromePath :: "string option"

record tunneling =
  enabled :: bool
  provider :: string
  tunnelToken :: "string option"
  tunnelUrl_cfg :: "string option"

record tunnel_state = "TunnelStatus managed" +
  tunnelUrl :: "string option"
  cfg_tunneling :: "tunneling option"

text \<open>
  What the platform answers and which of the calls into it fail. A failed recursive
  delete leaves the files of a set behind, a failed unpack has written those of a set.
\<close>

record io =
  win32 :: bool
  appVersion :: string
  userDataPath :: string
  serverZipPath :: string
  serverExtractPath :: string
  rm_error :: "(err \<times> string set) option"
  mkdir_error :: "err option"
  unzip_error :: "(err \<times> string set) option"
  copy_error :: "err option"
  db_error :: "err option"
  spawn_error :: "err option"

section \<open>Sequencing\<close>

definition seq :: "('s \<Rightarrow> 's) list \<Rightarrow> 's \<Rightarrow> 's" where
  "seq fs s = fold (\<lambda>f. f) fs s"

fun run :: "('s \<Rightarrow> err option \<times> 's) list \<Rightarrow> 's \<Rightarrow> err option \<times> 's" where
  "run [] s = (None, s)"
| "run (f # fs) s =
     (case f s of
        (Some e, s') \<Rightarrow> (Some e, s')
      | (None, s') \<Rightarrow> run fs s')"

definition ok :: "('s \<Rightarrow> 's) \<Rightarrow> 's \<Rightarrow> err option \<times> 's" where
  "ok f s = (None, f s)"

definition throw :: "err \<Rightarrow> 's \<Rightarrow> err option \<times> 's" where
  "throw e s = (Some e, s)"

definition emit :: "'st effect \<Rightarrow> ('st, 'z) managed_scheme \<Rightarrow> ('st, 'z) managed_scheme" where
  "emit e s = s\<lparr>trace := trace s @ [e]\<rparr>"

definition emit_error :: "err \<Rightarrow> ('st, 'z) managed_scheme \<Rightarrow> err option \<times> ('st, 'z) managed_scheme" where
  \<comment> \<open>\<open>this.emit('error', e)\<close>: an emitter without a listener for \<open>'error'\<close> throws \<open>e\<close>\<close>
  "emit_error e s = ((if errorListeners s = 0 then Some e else None), emit (Emit_error e) s)"

definition existsSync :: "('st, 'z) managed_scheme \<Rightarrow> string \<Rightarrow> bool" where
  \<comment> \<open>\<open>fs.existsSync\<close> of a file below \<open><userData>/server\<close>\<close>
  "existsSync s rel = (case server_dir s of None \<Rightarrow> False | Some d \<Rightarrow> d rel \<noteq> None)"

definition sep :: "io \<Rightarrow> string" where
  "sep io = (if win32 io then [CHR 0x5C] else ''/'')"

definition err_str :: "err \<Rightarrow> string" where
  \<comment> \<open>\<open>String(e)\<close>\<close>
  "err_str e =
     (if message e = [] then err_name e
      else if err_name e = [] then message e
      else err_name e @ '': '' @ message e)"

section \<open>ServerManager\<close>

definition server_setStatus :: "ServerStatus \<Rightarrow> server_state \<Rightarrow> server_state" where
  "server_setStatus st =
     seq [\<lambda>s. s\<lparr>status := st\<rparr>,
          emit (Emit_status st),
          emit (Emit_log (''Status changed to: '' @ toUpperCase (server_status_str st))),
          emit (Logger ''info'' (''Server status changed to: '' @ server_status_str st))]"

definition exeName :: "io \<Rightarrow> string" where
  "exeName io = (if win32 io then ''main.exe'' else ''main'')"

definition cloudflaredRel :: "io \<Rightarrow> string" where
  \<comment> \<open>\<open>cloudflared/cloudflared(.exe)\<close> below the server directory\<close>
  "cloudflaredRel io = ''cloudflared/'' @ (if win32 io then ''cloudflared.exe'' else ''cloudflared'')"

definition cleanup :: "io \<Rightarrow> server_state \<Rightarrow> server_state" where
  \<comment> \<open>"Cleanup old extraction": a failure of \<open>rmSync\<close> is caught and logged\<close>
  "cleanup io s =
     (case server_dir s of
        None \<Rightarrow> s
      | Some d \<Rightarrow>
          (case rm_error io of
             None \<Rightarrow> (emit (Emit_log ''Cleaning up old server files...'') s)\<lparr>server_dir := None\<rparr>
           | Some (e, keep) \<Rightarrow>
               emit (Emit_log (''Warning: Failed to clean old files: '' @ err_str e))
                 ((emit (Emit_log ''Cleaning up old server files...'') s)
                    \<lparr>server_dir := Some (d |` keep)\<rparr>)))"

definition mkdirSync :: "io \<Rightarrow> server_state \<Rightarrow> err option \<times> server_state" where
  "mkdirSync io s =
     (case mkdir_error io of
        Some e \<Rightarrow> throw e s
      | None \<Rightarrow>
          (None, s\<lparr>server_dir := Some (case server_dir s of None \<Rightarrow> Map.empty | Some d \<Rightarrow> d)\<rparr>))"

definition extractAllTo :: "io \<Rightarrow> server_state \<Rightarrow> err option \<times> server_state" where
  \<comment> \<open>\<open>new AdmZip(serverZipPath)\<close>, \<open>extractAllTo(serverExtractPath, true)\<close>\<close>
  "extractAllTo io s =
     (case server_zip s of
        None \<Rightarrow> throw (JsError ''Error'' ''Invalid filename'') s
      | Some z \<Rightarrow>
          (let d = (case server_dir s of None \<Rightarrow> Map.empty | Some d \<Rightarrow> d) in
           case unzip_error io of
             Some (e, written) \<Rightarrow> throw e (s\<lparr>server_dir := Some (d ++ (z |` written))\<rparr>)
           | None \<Rightarrow> (None, s\<lparr>server_dir := Some (d ++ z)\<rparr>)))"

definition needsExtraction :: "io \<Rightarrow> server_state \<Rightarrow> bool" where
  "needsExtraction io s =
     (\<not> existsSync s (exeName io) \<or> \<not> existsSync s (cloudflaredRel io) \<or>
      Some (appVersion io) \<noteq> cfg_serverVersion s)"

definition extractServerIfNeeded :: "io \<Rightarrow> server_state \<Rightarrow> err option \<times> server_state" where
  "extractServerIfNeeded io s =
     run ([ok (emit (Emit_log (''Checking server resources (App Ver: '' @ appVersion io @
                 '', Extracted: '' @
                 (case cfg_serverVersion s of None \<Rightarrow> ''undefined'' | Some v \<Rightarrow> v) @ '')...'')))] @
          (if needsExtraction io s then
             [ok (emit (Logger ''info'' (''Extracting server from '' @ serverZipPath io @ '' to '' @
                    serverExtractPath io @ ''...''))),
              ok (emit (Emit_log ''Extracting server resources... This may take a moment.'')),
              ok (server_setStatus Extracting),
              (\<lambda>s. if server_zip s = None
                    then throw (JsError ''Error'' (''Server zip not found at: '' @ serverZipPath io)) s
                    else (None, s)),
              ok (cleanup io),
              mkdirSync io,
              ok (emit (Emit_log ''Unzipping archive...'')),
              extractAllTo io,
              ok (\<lambda>s. s\<lparr>cfg_serverVersion := Some (appVersion io)\<rparr>),
              ok (emit (Logger ''info'' ''Server extraction complete.'')),
              ok (emit (Emit_log ''Extraction complete.''))]
           else
             [ok (emit (Logger ''info'' ''Server already extracted and up to date.'')),
              ok (emit (Emit_log ''Server resources are up to date.''))])) s"

definition ensureDatabase :: "io \<Rightarrow> server_state \<Rightarrow> err option \<times> server_state" where
  "ensureDatabase io =
     run [ok (server_setStatus Migrating),
          ok (emit (Emit_log ''Checking database integrity...'')),
          (\<lambda>s. if data_db s = None then
                  (case (case server_dir s of None \<Rightarrow> None | Some d \<Rightarrow> d ''initial.db'') of
                     Some template \<Rightarrow>
                       run [ok (emit (Logger ''info'' ''Initializing new database from template...'')),
                            ok (emit (Emit_log ''Creating new database from template...'')),
                            (\<lambda>s. case copy_error io of
                                    Some e \<Rightarrow> throw e s
                                  | None \<Rightarrow> (None, s\<lparr>data_db := Some template\<rparr>))] s
                   | None \<Rightarrow>
                       run [ok (emit (Logger ''warn''
                              ''initial.db not found, skipping database initialization. Server might create it.'')),
                            ok (emit (Emit_log ''Warning: Initial database template not found.''))] s)
                else (None, s)),
          ok (emit (Emit_log ''Verifying database connection...'')),
          (\<lambda>s. case db_error io of
                  Some e \<Rightarrow> run [ok (emit (Logger ''error'' ''Database migration failed:'')), throw e] s
                | None \<Rightarrow>
                    run [ok (\<lambda>s. s\<lparr>data_db := Some (case data_db s of None \<Rightarrow> [] | Some c \<Rightarrow> c)\<rparr>),
                         ok (emit (Logger ''info'' ''Database check complete.'')),
                         ok (emit (Emit_log ''Database check passed.''))] s)]"

definition spawn :: "string \<Rightarrow> string list \<Rightarrow> (string \<times> string) list \<Rightarrow>
    ('st, 'z) managed_scheme \<Rightarrow> ('st, 'z) managed_scheme" where
  \<comment> \<open>a new child process; the manager keeps it as its handle\<close>
  "spawn cmd args env s =
     (emit (Spawn (nextPid s) cmd args env) s)
       \<lparr>childProcess := Some (nextPid s), nextPid := Suc (nextPid s)\<rparr>"

definition spawnServer :: "io \<Rightarrow> server_state \<Rightarrow> err option \<times> server_state" where
  "spawnServer io =
     run [ok (server_setStatus Starting),
          (\<lambda>s. if \<not> existsSync s (exeName io)
                then throw (JsError ''Error'' (''Server executable not found at: '' @
                              serverExtractPath io @ sep io @ exeName io)) s
                else (None, s)),
          ok (emit (Logger ''info'' (''Spawning server: '' @ serverExtractPath io @ sep io @ exeName io))),
          (\<lambda>s. case spawn_error io of
                  Some e \<Rightarrow> throw e s
                | None \<Rightarrow>
                    (None, spawn (serverExtractPath io @ sep io @ exeName io) []
                       [(''PORT'', string_of_nat (port s)),
                        (''DATABASE_URL'', ''file:'' @ userDataPath io @ sep io @ ''data.db''),
                        (''CHROME_PATH'', (case cfg_chromePath s of None \<Rightarrow> [] | Some c \<Rightarrow> c)),
                        (''NODE_ENV'', ''production''),
                        (''PUPPETEER_SKIP_DOWNLOAD'', ''true'')] s))]"

definition configured_port :: "server_state \<Rightarrow> nat" where
  \<comment> \<open>\<open>configStore.get('serverPort') || 4000\<close>\<close>
  "configured_port s = (case cfg_serverPort s of None \<Rightarrow> 4000 | Some p \<Rightarrow> if p = 0 then 4000 else p)"

definition start_try_block :: "io \<Rightarrow> server_state \<Rightarrow> err option \<times> server_state" where
  \<comment> \<open>the body of the \<open>try\<close> block of \<open>start\<close>: the setup phase\<close>
  "start_try_block io =
     run [ok (emit (Emit_log ''Starting initialization sequence...'')),
          extractServerIfNeeded io,
          ensureDatabase io,
          spawnServer io]"

definition server_start :: "io \<Rightarrow> server_state \<Rightarrow> err option \<times> server_state" where
  \<comment> \<open>the first component is the error with which the call fails, if it does\<close>
  "server_start io s =
     (if status s = Running \<or> status s = Starting then
        (None, emit (Emit_log ''Server start requested but already running/starting.'') s)
      else
        (case start_try_block io (s\<lparr>port := configured_port s\<rparr>) of
           (None, s') \<Rightarrow> (None, s')
         | (Some e, s') \<Rightarrow>
             run [ok (emit (Logger ''error'' ''Failed to start server:'')),
                  ok (emit (Emit_log (''CRITICAL ERROR: '' @
                        (if message e \<noteq> [] then message e else err_str e)))),
                  ok (server_setStatus Error),
                  emit_error e] s'))"

datatype stop_result = StopResolved | StopPending nat

definition server_stop :: "server_state \<Rightarrow> stop_result \<times> server_state" where
  \<comment> \<open>\<open>StopPending t\<close>: the promise returned is settled later, by \<open>Resolve t\<close>\<close>
  "server_stop s =
     (case childProcess s of
        None \<Rightarrow> (StopResolved, s)
      | Some _ \<Rightarrow>
          (StopPending (nextTimer s),
           seq [server_setStatus Stopping,
                emit (Emit_log ''Stopping server process...''),
                emit (Logger ''info'' ''Stopping server...''),
                (\<lambda>s. s\<lparr>timers := timers s @ [nextTimer s], nextTimer := Suc (nextTimer s)\<rparr>),
                (\<lambda>s. case childProcess s of
                        None \<Rightarrow> s
                      | Some p \<Rightarrow> s\<lparr>exitHooks := exitHooks s @ [(p, nextTimer s - 1)]\<rparr>),
                (\<lambda>s. case childProcess s of
                        None \<Rightarrow> s
                      | Some p \<Rightarrow> emit (Kill p SIGTERM) s)] s))"

definition server_on_timeout :: "nat \<Rightarrow> server_state \<Rightarrow> server_state" where
  \<comment> \<open>the callback of the time-out \<open>t\<close> of a \<open>stop()\<close>; a cleared time-out never fires\<close>
  "server_on_timeout t s =
     (if t \<in> set (timers s) then
        seq [\<lambda>s. s\<lparr>timers := removeAll t (timers s)\<rparr>,
             (\<lambda>s. case childProcess s of
                     None \<Rightarrow> s
                   | Some p \<Rightarrow>
                       seq [emit (Logger ''warn'' ''Server did not stop gracefully, force killing...''),
                            emit (Emit_log ''Server unresponsive, force killing...''),
                            emit (Kill p SIGKILL),
                            (\<lambda>s. s\<lparr>childProcess := None\<rparr>),
                            server_setStatus Idle,
                            emit (Resolve t)] s)] s
      else s)"

definition server_exit_hook :: "nat \<Rightarrow> server_state \<Rightarrow> server_state" where
  \<comment> \<open>the \<open>'exit'\<close> listener of the \<open>stop()\<close> whose time-out is \<open>t\<close>\<close>
  "server_exit_hook t =
     seq [\<lambda>s. s\<lparr>timers := removeAll t (timers s)\<rparr>,
          (\<lambda>s. s\<lparr>childProcess := None\<rparr>),
          emit (Emit_log ''Server stopped gracefully.''),
          server_setStatus Idle,
          emit (Resolve t)]"

definition server_on_exit :: "pid \<Rightarrow> server_state \<Rightarrow> server_state" where
  \<comment> \<open>process \<open>p\<close> emits \<open>'exit'\<close>: its listeners run in the order they were added\<close>
  "server_on_exit p s =
     seq (map (\<lambda>h. server_exit_hook (snd h)) (filter (\<lambda>h. fst h = p) (exitHooks s))) s"

definition server_on_stdout :: "string \<Rightarrow> server_state \<Rightarrow> server_state" where
  "server_on_stdout data =
     seq [emit (Logger ''debug'' (''[SERVER] '' @ trim data)),
          emit (Emit_log (trim data)),
          (\<lambda>s. if str_includes (trim data) ''Nest application successfully started'' \<or>
                   str_includes (trim data) (''listening on port '' @ string_of_nat (port s))
                then server_setStatus Running s
                else s)]"

definition server_on_stderr :: "string \<Rightarrow> server_state \<Rightarrow> server_state" where
  "server_on_stderr data =
     seq [emit (Logger ''error'' (''[SERVER ERR] '' @ trim data)),
          emit (Emit_log (''ERROR: '' @ trim data))]"

definition server_on_error :: "err \<Rightarrow> server_state \<Rightarrow> err option \<times> server_state" where
  \<comment> \<open>the first component is the exception that leaves the handler uncaught, if any\<close>
  "server_on_error e =
     run [ok (emit (Logger ''error'' ''Server process failed to spawn:'')),
          ok (server_setStatus Error),
          emit_error e]"

definition server_on_close :: "int option \<Rightarrow> server_state \<Rightarrow> server_state" where
  "server_on_close code =
     seq [emit (Logger ''info'' (''Server process exited with code '' @ string_of_code code)),
          (\<lambda>s. if status s \<noteq> Stopping then server_setStatus Idle s else s),
          (\<lambda>s. s\<lparr>childProcess := None\<rparr>)]"

section \<open>TunnelManager\<close>

definition tunnel_setStatus :: "TunnelStatus \<Rightarrow> tunnel_state \<Rightarrow> tunnel_state" where
  "tunnel_setStatus st =
     seq [\<lambda>s. s\<lparr>status := st\<rparr>,
          emit (Emit_status st),
          emit (Logger ''info'' (''Tunnel status changed to: '' @ tunnel_status_str st))]"

definition cloudflaredPath :: "io \<Rightarrow> string" where
  "cloudflaredPath io =
     serverExtractPath io @ sep io @ ''cloudflared'' @ sep io @
       (if win32 io then ''cloudflared.exe'' else ''cloudflared'')"

definition truthy :: "string option \<Rightarrow> bool" where
  \<comment> \<open>a string, \<open>null\<close> or \<open>undefined\<close> used as a condition\<close>
  "truthy v = (case v of None \<Rightarrow> False | Some x \<Rightarrow> x \<noteq> [])"

definition saved_tunnelToken :: "tunnel_state \<Rightarrow> string option" where
  \<comment> \<open>\<open>configStore.get('tunneling')?.tunnelToken\<close>\<close>
  "saved_tunnelToken s = (case cfg_tunneling s of None \<Rightarrow> None | Some t \<Rightarrow> tunnelToken t)"

definition saved_tunnelUrl :: "tunnel_state \<Rightarrow> string option" where
  \<comment> \<open>\<open>configStore.get('tunneling')?.tunnelUrl\<close>\<close>
  "saved_tunnelUrl s = (case cfg_tunneling s of None \<Rightarrow> None | Some t \<Rightarrow> tunnelUrl_cfg t)"

definition tunnel_spawn :: "io \<Rightarrow> nat \<Rightarrow> tunnel_state \<Rightarrow> err option \<times> tunnel_state" where
  \<comment> \<open>the body of the \<open>try\<close> block of \<open>start\<close>\<close>
  "tunnel_spawn io lport s =
     (let args = (if truthy (saved_tunnelToken s)
                  then [''tunnel'', ''run'', ''--token'', the (saved_tunnelToken s)]
                  else [''tunnel'', ''--url'', ''http://localhost:'' @ string_of_nat lport])
      in run [ok (emit (Emit_log (if truthy (saved_tunnelToken s)
                                  then ''Using named tunnel with token...''
                                  else ''Using quick tunnel (trycloudflare.com)...''))),
              (\<lambda>s. case spawn_error io of
                      Some e \<Rightarrow> throw e s
                    | None \<Rightarrow> (None, spawn (cloudflaredPath io) args [] s))] s)"

definition tunnel_start :: "io \<Rightarrow> nat \<Rightarrow> tunnel_state \<Rightarrow> err option \<times> tunnel_state" where
  "tunnel_start io lport s =
     (if status s = TRunning \<or> status s = TStarting then
        (None, emit (Emit_log ''Tunnel already running or starting.'') s)
      else if \<not> existsSync s (cloudflaredRel io) then
        run [ok (emit (Emit_log ''ERROR: cloudflared executable not found.'')),
             ok (emit (Emit_log ''Please ensure cloudflared.exe is bundled with the application.'')),
             ok (tunnel_setStatus TError),
             throw (JsError ''Error'' ''cloudflared executable not found'')] s
      else
        (case run [ok (tunnel_setStatus TStarting),
                   ok (emit (Emit_log ''Starting Cloudflare Tunnel...'')),
                   tunnel_spawn io lport] s of
           (None, s') \<Rightarrow> (None, s')
         | (Some e, s') \<Rightarrow>
             run [ok (emit (Logger ''error'' ''Failed to start tunnel:'')),
                  ok (emit (Emit_log (''Failed to start tunnel: '' @ message e))),
                  ok (tunnel_setStatus TError),
                  throw e] s'))"

definition default_tunneling :: tunneling where
  "default_tunneling =
     \<lparr>enabled = False, provider = ''cloudflare'', tunnelToken = None, tunnelUrl_cfg = None\<rparr>"

definition parseTunnelOutput :: "string \<Rightarrow> tunnel_state \<Rightarrow> tunnel_state" where
  "parseTunnelOutput msg =
     seq [\<lambda>s. case quickTunnelMatch msg of
                None \<Rightarrow> s
              | Some u \<Rightarrow>
                  seq [\<lambda>s. s\<lparr>tunnelUrl := Some u\<rparr>,
                       emit (Emit_log (''Tunnel URL: '' @ u)),
                       emit (Emit_url (Some u)),
                       (\<lambda>s. s\<lparr>cfg_tunneling :=
                               Some ((case cfg_tunneling s of None \<Rightarrow> default_tunneling | Some t \<Rightarrow> t)
                                       \<lparr>tunnelUrl_cfg := Some u\<rparr>)\<rparr>),
                       tunnel_setStatus TRunning] s,
          (\<lambda>s. if str_includes msg ''Connection'' \<and> str_includes msg ''registered'' then
                  seq [\<lambda>s. if truthy (saved_tunnelUrl s) \<and>
                               \<not> str_includes (the (saved_tunnelUrl s)) ''trycloudflare''
                            then emit (Emit_url (saved_tunnelUrl s)) (s\<lparr>tunnelUrl := saved_tunnelUrl s\<rparr>)
                            else s,
                       tunnel_setStatus TRunning] s
                else s),
          (\<lambda>s. if str_includes msg ''failed'' \<or> str_includes msg ''error'' then
                  (if \<not> truthy (tunnelUrl s) then tunnel_setStatus TError s else s)
                else s)]"

definition tunnel_on_stdout :: "string \<Rightarrow> tunnel_state \<Rightarrow> tunnel_state" where
  "tunnel_on_stdout data =
     seq [emit (Logger ''debug'' (''[TUNNEL] '' @ trim data)),
          emit (Emit_log (''[Tunnel] '' @ trim data)),
          parseTunnelOutput (trim data)]"

definition tunnel_on_stderr :: "string \<Rightarrow> tunnel_state \<Rightarrow> tunnel_state" where
  \<comment> \<open>"cloudflared outputs most info to stderr": the same treatment as stdout\<close>
  "tunnel_on_stderr data =
     seq [emit (Logger ''debug'' (''[TUNNEL] '' @ trim data)),
          emit (Emit_log (''[Tunnel] '' @ trim data)),
          parseTunnelOutput (trim data)]"

definition tunnel_on_error :: "err \<Rightarrow> tunnel_state \<Rightarrow> err option \<times> tunnel_state" where
  "tunnel_on_error e =
     run [ok (emit (Logger ''error'' ''Tunnel process failed:'')),
          ok (emit (Emit_log (''Tunnel error: '' @ message e))),
          ok (tunnel_setStatus TError),
          emit_error e]"

definition tunnel_on_close :: "int option \<Rightarrow> tunnel_state \<Rightarrow> tunnel_state" where
  "tunnel_on_close code =
     seq [emit (Logger ''info'' (''Tunnel process exited with code '' @ string_of_code code)),
          (\<lambda>s. s\<lparr>tunnelUrl := None\<rparr>),
          emit (Emit_url None),
          (\<lambda>s. if status s \<noteq> TStopping then tunnel_setStatus TIdle s else s),
          (\<lambda>s. s\<lparr>childProcess := None\<rparr>)]"

definition tunnel_stop :: "tunnel_state \<Rightarrow> stop_result \<times> tunnel_state" where
  "tunnel_stop s =
     (case childProcess s of
        None \<Rightarrow> (StopResolved, s)
      | Some _ \<Rightarrow>
          (StopPending (nextTimer s),
           seq [tunnel_setStatus TStopping,
                emit (Emit_log ''Stopping tunnel...''),
                (\<lambda>s. s\<lparr>timers := timers s @ [nextTimer s], nextTimer := Suc (nextTimer s)\<rparr>),
                (\<lambda>s. case childProcess s of
                        None \<Rightarrow> s
                      | Some p \<Rightarrow> s\<lparr>exitHooks := exitHooks s @ [(p, nextTimer s - 1)]\<rparr>),
                (\<lambda>s. case childProcess s of
                        None \<Rightarrow> s
                      | Some p \<Rightarrow> emit (Kill p SIGTERM) s)] s))"

definition tunnel_on_timeout :: "nat \<Rightarrow> tunnel_state \<Rightarrow> tunnel_state" where
  "tunnel_on_timeout t s =
     (if t \<in> set (timers s) then
        seq [\<lambda>s. s\<lparr>timers := removeAll t (timers s)\<rparr>,
             (\<lambda>s. case childProcess s of
                     None \<Rightarrow> s
                   | Some p \<Rightarrow>
                       seq [emit (Logger ''warn'' ''Tunnel did not stop gracefully, force killing...''),
                            emit (Emit_log ''Force killing tunnel process...''),
                            emit (Kill p SIGKILL),
                            (\<lambda>s. s\<lparr>childProcess := None\<rparr>),
                            (\<lambda>s. s\<lparr>tunnelUrl := None\<rparr>),
                            emit (Emit_url None),
                            tunnel_setStatus TIdle,
                            emit (Resolve t)] s)] s
      else s)"

definition tunnel_exit_hook :: "nat \<Rightarrow> tunnel_state \<Rightarrow> tunnel_state" where
  "tunnel_exit_hook t =
     seq [\<lambda>s. s\<lparr>timers := removeAll t (timers s)\<rparr>,
          (\<lambda>s. s\<lparr>childProcess := None\<rparr>),
          (\<lambda>s. s\<lparr>tunnelUrl := None\<rparr>),
          emit (Emit_url None),
          emit (Emit_log ''Tunnel stopped.''),
          tunnel_setStatus TIdle,
          emit (Resolve t)]"

definition tunnel_on_exit :: "pid \<Rightarrow> tunnel_state \<Rightarrow> tunnel_state" where
  "tunnel_on_exit p s =
     seq (map (\<lambda>h. tunnel_exit_hook (snd h)) (filter (\<lambda>h. fst h = p) (exitHooks s))) s"

section \<open>Runs of a manager\<close>

text \<open>
  A manager is created once, idle and without a child process. From then on it is changed
  by its own operations and by the handlers it has registered: the output, \<open>'error'\<close>,
  \<open>'exit'\<close> and \<open>'close'\<close> events of the processes it has spawned, and its time-outs.
  The files and the configuration change under it. Nothing ever listens for a manager's
  own \<open>'error'\<close> event: the inter-process layer, the only observer of the two managers,
  registers for \<open>'log'\<close>, \<open>'status-change'\<close> and \<open>'url-change'\<close>. An \<open>async\<close> operation whose body awaits only its own synchronous helpers is one
  step: no event handler runs between its parts.
\<close>

definition server_initial :: "server_state \<Rightarrow> bool" where
  "server_initial s =
     (status s = Idle \<and> childProcess s = None \<and> port s = configured_port s \<and>
      errorListeners s = 0 \<and> exitHooks s = [] \<and> timers s = [] \<and> nextPid s = 0 \<and> nextTimer s = 0 \<and> trace s = [])"

definition tunnel_initial :: "tunnel_state \<Rightarrow> bool" where
  "tunnel_initial s =
     (status s = TIdle \<and> childProcess s = None \<and> tunnelUrl s = None \<and>
      errorListeners s = 0 \<and> exitHooks s = [] \<and> timers s = [] \<and> nextPid s = 0 \<and> nextTimer s = 0 \<and> trace s = [])"

inductive server_reach :: "server_state \<Rightarrow> bool" where
  sr_init: "server_initial s \<Longrightarrow> server_reach s"
| sr_start: "server_reach s \<Longrightarrow> server_reach (snd (server_start io s))"
| sr_stop: "server_reach s \<Longrightarrow> server_reach (snd (server_stop s))"
| sr_stdout: "server_reach s \<Longrightarrow> p < nextPid s \<Longrightarrow> server_reach (server_on_stdout d s)"
| sr_stderr: "server_reach s \<Longrightarrow> p < nextPid s \<Longrightarrow> server_reach (server_on_stderr d s)"
| sr_error: "server_reach s \<Longrightarrow> p < nextPid s \<Longrightarrow> server_reach (snd (server_on_error e s))"
| sr_exit: "server_reach s \<Longrightarrow> p < nextPid s \<Longrightarrow> server_reach (server_on_exit p s)"
| sr_close: "server_reach s \<Longrightarrow> p < nextPid s \<Longrightarrow> server_reach (server_on_close code s)"
| sr_timeout: "server_reach s \<Longrightarrow> server_reach (server_on_timeout t s)"
| sr_world: "server_reach s \<Longrightarrow>
    server_reach (s\<lparr>server_dir := d, data_db := db, server_zip := z,
                    cfg_serverPort := cp, cfg_serverVersion := cv, cfg_chromePath := cc\<rparr>)"

inductive tunnel_reach :: "tunnel_state \<Rightarrow> bool" where
  tr_init: "tunnel_initial s \<Longrightarrow> tunnel_reach s"
| tr_start: "tunnel_reach s \<Longrightarrow> tunnel_reach (snd (tunnel_start io lport s))"
| tr_stop: "tunnel_reach s \<Longrightarrow> tunnel_reach (snd (tunnel_stop s))"
| tr_stdout: "tunnel_reach s \<Longrightarrow> p < nextPid s \<Longrightarrow> tunnel_reach (tunnel_on_stdout d s)"
| tr_stderr: "tunnel_reach s \<Longrightarrow> p < nextPid s \<Longrightarrow> tunnel_reach (tunnel_on_stderr d s)"
| tr_error: "tunnel_reach s \<Longrightarrow> p < nextPid s \<Longrightarrow> tunnel_reach (snd (tunnel_on_error e s))"
| tr_exit: "tunnel_reach s \<Longrightarrow> p < nextPid s \<Longrightarrow> tunnel_reach (tunnel_on_exit p s)"
| tr_close: "tunnel_reach s \<Longrightarrow> p < nextPid s \<Longrightarrow> tunnel_reach (tunnel_on_close code s)"
| tr_timeout: "tunnel_reach s \<Longrightarrow> tunnel_reach (tunnel_on_timeout t s)"
| tr_world: "tunnel_reach s \<Longrightarrow>
    tunnel_reach (s\<lparr>server_dir := d, cfg_tunneling := c\<rparr>)"

section \<open>What holds between steps\<close>

definition server_inv :: "server_state \<Rightarrow> bool" where
  "server_inv s = ((status s = Idle \<longrightarrow> childProcess s = None) \<and>
                   (status s = Starting \<longrightarrow> childProcess s \<noteq> None) \<and>
                   status s \<noteq> Extracting \<and> status s \<noteq> Migrating)"

definition tunnel_inv :: "tunnel_state \<Rightarrow> bool" where
  "tunnel_inv t = ((status t = TIdle \<longrightarrow> childProcess t = None) \<and>
                   (status t = TStarting \<longrightarrow> childProcess t \<noteq> None))"

text \<open>What a step from \<open>s\<close> to \<open>s'\<close> has added to the trace.\<close>

definition emitted :: "('st, 'z) managed_scheme \<Rightarrow> ('st, 'z) managed_scheme \<Rightarrow> 'st effect list" where
  "emitted s s' = drop (length (trace s)) (trace s')"


section \<open>Example inputs\<close>

text \<open>
  A Windows installation of version 1.0.0 on which no call into the platform fails, the
  archive it ships, and managers in the situations the theorems below are tried on.
\<close>

definition ex_io :: io where
  "ex_io =
     \<lparr>win32 = True, appVersion = ''1.0.0'', userDataPath = ''data'',
      serverZipPath = ''res/server.zip'', serverExtractPath = ''data/server'', rm_error = None, mkdir_error = None,
      unzip_error = None, copy_error = None, db_error = None, spawn_error = None\<rparr>"

definition ex_zip :: "string \<rightharpoonup> string" where
  "ex_zip =
     [''main.exe'' \<mapsto> ''exe-1.0.0'', ''cloudflared/cloudflared.exe'' \<mapsto> ''cf'',
      ''initial.db'' \<mapsto> ''db'']"

definition ex_idle :: server_state where
  \<comment> \<open>first launch: nothing extracted yet\<close>
  "ex_idle =
     \<lparr>status = Idle, childProcess = None, errorListeners = 0, exitHooks = [], timers = [],
      nextPid = 0, nextTimer = 0, trace = [], server_dir = None,
      port = 4000, data_db = None, server_zip = Some ex_zip, cfg_serverPort = Some 4000,
      cfg_serverVersion = Some ''0.0.0'', cfg_chromePath = None\<rparr>"

definition ex_live :: server_state where
  \<comment> \<open>the service has been spawned and has not reported yet\<close>
  "ex_live =
     \<lparr>status = Starting, childProcess = Some 0, errorListeners = 0, exitHooks = [], timers = [],
      nextPid = 1, nextTimer = 0, trace = [], server_dir = Some ex_zip,
      port = 4000, data_db = Some ''db'', server_zip = Some ex_zip, cfg_serverPort = Some 4000,
      cfg_serverVersion = Some ''1.0.0'', cfg_chromePath = None\<rparr>"

definition ex_tunnel_idle :: tunnel_state where
  "ex_tunnel_idle =
     \<lparr>status = TIdle, childProcess = None, errorListeners = 0, exitHooks = [], timers = [],
      nextPid = 0, nextTimer = 0, trace = [], server_dir = Some ex_zip,
      tunnelUrl = None, cfg_tunneling = None\<rparr>"

definition ex_tunnel_live :: tunnel_state where
  "ex_tunnel_live =
     \<lparr>status = TStarting, childProcess = Some 0, errorListeners = 0, exitHooks = [], timers = [],
      nextPid = 1, nextTimer = 0, trace = [], server_dir = Some ex_zip,
      tunnelUrl = None, cfg_tunneling = None\<rparr>"

definition ex_url :: string where
  "ex_url = ''https://abc-def-123.trycloudflare.com''"

definition ex_line :: string where
  \<comment> \<open>a line as cloudflared prints it\<close>
  "ex_line = ''INF |  https://abc-def-123.trycloudflare.com  |  ''"



definition ex_ready :: string where
  "ex_ready = ''Server listening on port 4000''"

definition ex_started :: server_state where
  "ex_started = snd (server_start ex_io ex_idle)"

definition ex_tunnel_started :: tunnel_state where
  "ex_tunnel_started = snd (tunnel_start ex_io 4000 ex_tunnel_idle)"

definition ex_spawn_err :: err where
  "ex_spawn_err = JsError ''Error'' ''spawn EACCES''"

definition ex_failed_line :: string where
  "ex_failed_line = ''ERR failed to dial edge''"








section \<open>Basic facts\<close>

lemma dropWhile_keeps_piece:
  assumes "pat \<noteq> []" and "\<not> P (hd pat)"
  shows "\<exists>ps'. dropWhile P (ps @ pat @ ss) = ps' @ pat @ ss"
proof (cases "\<forall>x \<in> set ps. P x")
  case True
  from assms obtain a as where pat: "pat = a # as" and a: "\<not> P a"
    by (cases pat) auto
  from True have "dropWhile P (ps @ pat @ ss) = dropWhile P (pat @ ss)"
    by (simp add: dropWhile_append)
  also have "\<dots> = [] @ pat @ ss" using pat a by simp
  finally show ?thesis by blast
next
  case False
  then have "dropWhile P (ps @ pat @ ss) = dropWhile P ps @ pat @ ss"
    by (auto simp: dropWhile_append)
  then show ?thesis by blast
qed

text \<open>Trimming a chunk does not remove a phrase that begins and ends with visible characters.\<close>

lemma trim_keeps_piece:
  assumes "sublist pat d" and "pat \<noteq> []" and "\<not> is_ws (hd pat)" and "\<not> is_ws (last pat)"
  shows "sublist pat (trim d)"
proof -
  from assms(1) obtain ps ss where d: "d = ps @ pat @ ss"
    by (auto simp: sublist_def)
  from dropWhile_keeps_piece [of pat is_ws ps ss] assms(2,3) obtain ps' where
    1: "dropWhile is_ws (ps @ pat @ ss) = ps' @ pat @ ss" by blast
  have "rev pat \<noteq> []" "\<not> is_ws (hd (rev pat))"
    using assms(2,4) by (simp_all add: hd_rev)
  with dropWhile_keeps_piece [of "rev pat" is_ws "rev ss" "rev ps'"] obtain ss' where
    2: "dropWhile is_ws (rev ss @ rev pat @ rev ps') = ss' @ rev pat @ rev ps'" by blast
  have "trim d = ps' @ pat @ rev ss'"
    by (simp add: trim_def d 1 2)
  then show ?thesis by (auto simp: sublist_def)
qed

lemma seq_Nil [simp]: "seq [] s = s"
  by (simp add: seq_def)

lemma seq_Cons [simp]: "seq (f # fs) s = seq fs (f s)"
  by (simp add: seq_def)

lemma seq_append: "seq (fs @ gs) s = seq gs (seq fs s)"
  by (simp add: seq_def)

lemma emit_sel [simp]:
  "status (emit e s) = status s" "childProcess (emit e s) = childProcess s"
  "errorListeners (emit e s) = errorListeners s" "exitHooks (emit e s) = exitHooks s"
  "timers (emit e s) = timers s" "nextPid (emit e s) = nextPid s"
  "nextTimer (emit e s) = nextTimer s" "trace (emit e s) = trace s @ [e]"
  "server_dir (emit e s) = server_dir s" "managed.more (emit e s) = managed.more s"
  by (simp_all add: emit_def)

lemma server_setStatus_sel [simp]:
  "status (server_setStatus st s) = st"
  "childProcess (server_setStatus st s) = childProcess s"
  "errorListeners (server_setStatus st s) = errorListeners s"
  "exitHooks (server_setStatus st s) = exitHooks s"
  "timers (server_setStatus st s) = timers s"
  "nextPid (server_setStatus st s) = nextPid s"
  "nextTimer (server_setStatus st s) = nextTimer s"
  "trace (server_setStatus st s) =
     trace s @ [Emit_status st,
                Emit_log (''Status changed to: '' @ toUpperCase (server_status_str st)),
                Logger ''info'' (''Server status changed to: '' @ server_status_str st)]"
  "server_dir (server_setStatus st s) = server_dir s"
  "managed.more (server_setStatus st s) = managed.more s"
  by (simp_all add: server_setStatus_def)

lemma tunnel_setStatus_sel [simp]:
  "status (tunnel_setStatus st s) = st"
  "childProcess (tunnel_setStatus st s) = childProcess s"
  "errorListeners (tunnel_setStatus st s) = errorListeners s"
  "exitHooks (tunnel_setStatus st s) = exitHooks s"
  "timers (tunnel_setStatus st s) = timers s"
  "nextPid (tunnel_setStatus st s) = nextPid s"
  "nextTimer (tunnel_setStatus st s) = nextTimer s"
  "trace (tunnel_setStatus st s) =
     trace s @ [Emit_status st,
                Logger ''info'' (''Tunnel status changed to: '' @ tunnel_status_str st)]"
  "server_dir (tunnel_setStatus st s) = server_dir s"
  "managed.more (tunnel_setStatus st s) = managed.more s"
  by (simp_all add: tunnel_setStatus_def)

lemma emit_sel_ext [simp]:
  "port (emit e s) = port s" "data_db (emit e s) = data_db s" "server_zip (emit e s) = server_zip s"
  "cfg_serverPort (emit e s) = cfg_serverPort s" "cfg_serverVersion (emit e s) = cfg_serverVersion s"
  "cfg_chromePath (emit e s) = cfg_chromePath s"
  "tunnelUrl (emit e' t) = tunnelUrl t" "cfg_tunneling (emit e' t) = cfg_tunneling t"
  by (simp_all add: emit_def)

lemma setStatus_sel_ext [simp]:
  "port (server_setStatus st s) = port s" "data_db (server_setStatus st s) = data_db s"
  "server_zip (server_setStatus st s) = server_zip s"
  "cfg_serverPort (server_setStatus st s) = cfg_serverPort s"
  "cfg_serverVersion (server_setStatus st s) = cfg_serverVersion s"
  "cfg_chromePath (server_setStatus st s) = cfg_chromePath s"
  "tunnelUrl (tunnel_setStatus st' t) = tunnelUrl t"
  "cfg_tunneling (tunnel_setStatus st' t) = cfg_tunneling t"
  by (simp_all add: server_setStatus_def tunnel_setStatus_def)

subsection \<open>The pattern matcher\<close>

lemma ci_prefix_iff:
  "ci_prefix p s \<longleftrightarrow> length p \<le> length s \<and> map toUpper (take (length p) s) = map toUpper p"
  by (induction p s rule: ci_prefix.induct) auto

lemma ci_prefix_ex:
  "ci_prefix p s \<longleftrightarrow> (\<exists>a b. s = a @ b \<and> map toUpper a = map toUpper p)"
proof
  assume "ci_prefix p s"
  then have "s = take (length p) s @ drop (length p) s \<and>
      map toUpper (take (length p) s) = map toUpper p"
    by (simp add: ci_prefix_iff)
  then show "\<exists>a b. s = a @ b \<and> map toUpper a = map toUpper p" by blast
next
  assume "\<exists>a b. s = a @ b \<and> map toUpper a = map toUpper p"
  then obtain a b where s: "s = a @ b" and a: "map toUpper a = map toUpper p" by blast
  from a have "length a = length p" by (metis length_map)
  with s a show "ci_prefix p s" by (simp add: ci_prefix_iff)
qed

lemma upper_scheme: "map toUpper ''https://'' = ''HTTPS://''"
  by (simp add: toUpper_def)

lemma upper_host: "map toUpper ''.trycloudflare.com'' = ''.TRYCLOUDFLARE.COM''"
  by (simp add: toUpper_def)

lemma upper_scheme_length: "map toUpper a = ''HTTPS://'' \<Longrightarrow> length a = 8"
proof -
  assume "map toUpper a = ''HTTPS://''"
  then have "length (map toUpper a) = length ''HTTPS://''" by (rule arg_cong)
  then show ?thesis by simp
qed

lemma upper_host_length: "map toUpper h = ''.TRYCLOUDFLARE.COM'' \<Longrightarrow> length h = 18"
proof -
  assume "map toUpper h = ''.TRYCLOUDFLARE.COM''"
  then have "length (map toUpper h) = length ''.TRYCLOUDFLARE.COM''" by (rule arg_cong)
  then show ?thesis by simp
qed

lemma label_then_host_Some:
  "label_then_host r k = Some n \<Longrightarrow>
     0 < n \<and> n \<le> k \<and> ci_prefix ''.trycloudflare.com'' (drop n r)"
  by (induction k) (auto split: if_splits)

lemma label_then_host_longest:
  "0 < k \<Longrightarrow> ci_prefix ''.trycloudflare.com'' (drop k r) \<Longrightarrow> label_then_host r k = Some k"
  by (cases k) auto

lemma take_takeWhile_le:
  "n \<le> length (takeWhile P xs) \<Longrightarrow> take n xs = take n (takeWhile P xs)"
proof -
  assume n: "n \<le> length (takeWhile P xs)"
  have "take n xs = take n (takeWhile P xs @ dropWhile P xs)" by simp
  also have "\<dots> = take n (takeWhile P xs)" using n by (simp del: takeWhile_dropWhile_id)
  finally show ?thesis .
qed

lemma match_at_scheme:
  assumes "match_at s = Some m"
  shows "ci_prefix ''https://'' s"
  using assms
  by (cases "ci_prefix ''https://'' s")
     (simp_all only: match_at_def if_False if_True option.distinct)

lemma match_at_label:
  assumes "match_at s = Some m"
  shows "\<exists>n. label_then_host (drop 8 s) (length (takeWhile is_label_char (drop 8 s))) = Some n \<and>
             m = take (8 + n + 18) s"
proof (cases "label_then_host (drop 8 s) (length (takeWhile is_label_char (drop 8 s)))")
  case None
  with assms match_at_scheme [OF assms] show ?thesis
    by (simp only: match_at_def if_True option.simps)
next
  case (Some n)
  with assms match_at_scheme [OF assms] have "m = take (8 + n + 18) s"
    by (simp only: match_at_def if_True option.simps)
  with Some show ?thesis by (intro exI [of _ n] conjI)
qed

lemma match_at_Some:
  assumes "match_at s = Some m"
  shows "prefix m s" and "quick_url_ci m"
proof -
  from match_at_scheme [OF assms] obtain a b where s: "s = a @ b"
    and a: "map toUpper a = ''HTTPS://''"
    unfolding ci_prefix_ex upper_scheme by (elim exE conjE) (rule that)
  note la = upper_scheme_length [OF a]
  have d8: "drop 8 s = b" by (simp add: s la)
  let ?k = "length (takeWhile is_label_char b)"
  from match_at_label [OF assms] obtain n where n: "label_then_host b ?k = Some n"
    and m: "m = take (8 + n + 18) s"
    unfolding d8 by (elim exE conjE) (rule that)
  note lh_facts = label_then_host_Some [OF n]
  have n0: "0 < n" using lh_facts by (elim conjE)
  have nk: "n \<le> ?k" using lh_facts by (elim conjE)
  have host: "ci_prefix ''.trycloudflare.com'' (drop n b)" using lh_facts by (elim conjE)
  from host obtain h rest where dn: "drop n b = h @ rest"
    and h: "map toUpper h = ''.TRYCLOUDFLARE.COM''"
    unfolding ci_prefix_ex upper_host by (elim exE conjE) (rule that)
  note lh = upper_host_length [OF h]
  have nb: "n \<le> length b"
    using nk length_takeWhile_le [of is_label_char b] by linarith
  have b: "b = take n b @ h @ rest"
    using dn by (metis append_take_drop_id)
  have ltn: "length (take n b) = n" using nb by simp
  have "take (8 + n + 18) (a @ take n b @ h @ rest) = a @ take n b @ h"
    using la lh ltn by simp
  moreover have "s = a @ take n b @ h @ rest" using s b by simp
  ultimately have split: "m = a @ take n b @ h" using m by simp
  have lbl: "\<forall>c \<in> set (take n b). is_label_char c"
    using take_takeWhile_le [OF nk] by (metis in_set_takeD set_takeWhileD)
  from n0 nb have ne: "take n b \<noteq> []" by auto
  show "prefix m s" unfolding m by (rule take_is_prefix)
  from split a ne lbl h show "quick_url_ci m"
    unfolding quick_url_ci_def toUpperCase_def by (intro exI conjI)
qed

lemma quick_url_ci_nonempty: "quick_url_ci m \<Longrightarrow> m \<noteq> []"
  by (auto simp: quick_url_ci_def)

text \<open>The result of \<open>match\<close> starts at the first position where the pattern matches.\<close>

lemma quickTunnelMatch_Some:
  "quickTunnelMatch s = Some m \<Longrightarrow>
     \<exists>a b. s = a @ b \<and> match_at b = Some m \<and> (\<forall>i < length a. match_at (drop i s) = None)"
proof (induction s)
  case Nil
  then show ?case by simp
next
  case (Cons c cs)
  show ?case
  proof (cases "match_at (c # cs)")
    case (Some m')
    with Cons.prems have "m' = m" by simp
    with Some have "c # cs = [] @ (c # cs) \<and> match_at (c # cs) = Some m \<and>
        (\<forall>i < length ([]::string). match_at (drop i (c # cs)) = None)" by simp
    then show ?thesis by blast
  next
    case None
    with Cons.prems have "quickTunnelMatch cs = Some m" by simp
    from Cons.IH [OF this] obtain a b where ab: "cs = a @ b" "match_at b = Some m"
      "\<forall>i < length a. match_at (drop i cs) = None" by blast
    have "\<forall>i < length (c # a). match_at (drop i (c # cs)) = None"
    proof (intro allI impI)
      fix i assume "i < length (c # a)"
      then show "match_at (drop i (c # cs)) = None"
        using None ab(3) by (cases i) auto
    qed
    with ab(1,2) have "c # cs = (c # a) @ b \<and> match_at b = Some m \<and>
        (\<forall>i < length (c # a). match_at (drop i (c # cs)) = None)" by simp
    then show ?thesis by blast
  qed
qed

lemma quickTunnelMatch_sound:
  assumes "quickTunnelMatch s = Some m"
  shows "sublist m s" and "quick_url_ci m" and "m \<noteq> []"
proof -
  from quickTunnelMatch_Some [OF assms] obtain a b where
    ab: "s = a @ b" "match_at b = Some m" by blast
  from match_at_Some [OF ab(2)] show q: "quick_url_ci m" and "sublist m s"
    using ab(1) by (auto simp: sublist_def prefix_def)
  from q show "m \<noteq> []" by (rule quick_url_ci_nonempty)
qed

lemma quickTunnelMatch_append:
  "match_at s \<noteq> None \<Longrightarrow> quickTunnelMatch (pre @ s) \<noteq> None"
proof (induction pre)
  case Nil
  then show ?case by (cases s) (auto simp: match_at_def)
next
  case (Cons c pre)
  then show ?case by (auto split: option.splits)
qed

lemma not_label_dot: "toUpper h = CHR ''.'' \<Longrightarrow> \<not> is_label_char h"
  by (simp add: is_label_char_def)

lemma match_at_complete:
  assumes "quick_url_ci u"
  shows "match_at (u @ post) \<noteq> None"
proof -
  from assms obtain sch lbl host where u: "u = sch @ lbl @ host"
    and sch: "map toUpper sch = ''HTTPS://''" and ne: "lbl \<noteq> []"
    and lbl: "\<forall>c \<in> set lbl. is_label_char c"
    and host: "map toUpper host = ''.TRYCLOUDFLARE.COM''"
    unfolding quick_url_ci_def toUpperCase_def by (elim exE conjE) (rule that)
  note l8 = upper_scheme_length [OF sch]
  have "u @ post = sch @ (lbl @ host @ post) \<and> map toUpper sch = ''HTTPS://''"
    using u sch by simp
  then have 1: "ci_prefix ''https://'' (u @ post)"
    unfolding ci_prefix_ex upper_scheme by (intro exI)
  have d8: "drop 8 (u @ post) = lbl @ host @ post"
    by (simp add: u l8)
  from host obtain h hs where hh: "host = h # hs" and "toUpper h = CHR ''.''"
    by (cases host) simp_all
  then have "\<not> is_label_char h" by (simp add: not_label_dot)
  with lbl hh have tw: "takeWhile is_label_char (lbl @ host @ post) = lbl"
    by (simp add: takeWhile_append2)
  have "host @ post = host @ post \<and> map toUpper host = ''.TRYCLOUDFLARE.COM''"
    using host by simp
  then have "ci_prefix ''.trycloudflare.com'' (host @ post)"
    unfolding ci_prefix_ex upper_host by (intro exI)
  then have "label_then_host (lbl @ host @ post) (length lbl) = Some (length lbl)"
    using ne by (intro label_then_host_longest) simp_all
  with 1 d8 tw show ?thesis
    by (simp add: match_at_def)
qed

lemma upper_label_chars:
  "map toUpper ''abcdefghijklmnopqrstuvwxyz0123456789-'' = ''ABCDEFGHIJKLMNOPQRSTUVWXYZ0123456789-''"
  by (simp add: toUpper_def)

lemma lower_is_label_char:
  assumes "c \<in> set ''abcdefghijklmnopqrstuvwxyz0123456789-''"
  shows "is_label_char c"
proof -
  from assms have "toUpper c \<in> set (map toUpper ''abcdefghijklmnopqrstuvwxyz0123456789-'')"
    by (simp only: set_map) (rule imageI)
  then show ?thesis
    by (simp only: upper_label_chars is_label_char_def)
qed

lemma quick_url_is_ci: "quick_url u \<Longrightarrow> quick_url_ci u"
proof -
  assume "quick_url u"
  then obtain lbl where u: "u = ''https://'' @ lbl @ ''.trycloudflare.com''" and ne: "lbl \<noteq> []"
    and lbl: "\<forall>c \<in> set lbl. c \<in> set ''abcdefghijklmnopqrstuvwxyz0123456789-''"
    unfolding quick_url_def by (elim exE conjE) (rule that)
  have "\<forall>c \<in> set lbl. is_label_char c"
  proof
    fix c assume "c \<in> set lbl"
    with lbl have "c \<in> set ''abcdefghijklmnopqrstuvwxyz0123456789-''" by (rule bspec)
    then show "is_label_char c" by (rule lower_is_label_char)
  qed
  with u ne upper_scheme upper_host
  have "u = ''https://'' @ lbl @ ''.trycloudflare.com'' \<and> toUpperCase ''https://'' = ''HTTPS://'' \<and>
        lbl \<noteq> [] \<and> (\<forall>c \<in> set lbl. is_label_char c) \<and>
        toUpperCase ''.trycloudflare.com'' = ''.TRYCLOUDFLARE.COM''"
    unfolding toUpperCase_def by (intro conjI)
  then show ?thesis
    unfolding quick_url_ci_def by (intro exI)
qed

lemma quickTunnelMatch_complete:
  assumes "s = pre @ u @ post" and "quick_url_ci u"
  shows "\<exists>m. quickTunnelMatch s = Some m"
proof -
  have "match_at (u @ post) \<noteq> None"
    using assms(2) by (rule match_at_complete)
  then have "quickTunnelMatch (pre @ u @ post) \<noteq> None"
    by (rule quickTunnelMatch_append)
  with assms(1) show ?thesis by auto
qed

lemma trim_sublist: "sublist (trim d) d"
proof -
  have "suffix (dropWhile is_ws d) d"
    by (rule suffix_dropWhile)
  moreover have "suffix (dropWhile is_ws (rev (dropWhile is_ws d))) (rev (dropWhile is_ws d))"
    by (rule suffix_dropWhile)
  then have "prefix (trim d) (dropWhile is_ws d)"
    unfolding trim_def by (simp add: suffix_to_prefix)
  ultimately show ?thesis
    by (meson prefix_imp_sublist suffix_imp_sublist sublist_order.order.trans)
qed

section \<open>Claims\<close>

subsection \<open>Unexpected exit\<close>

text \<open>
  C7. When a child process closes while the status is not \<open>stopping\<close>, the status becomes
  \<open>idle\<close> (never \<open>error\<close>) whatever the exit code is, the \<open>idle\<close> status event is emitted
  and the handle is cleared. This holds for the primary service and for the tunnel.
\<close>

theorem unexpected_close_goes_idle:
  "(status s \<noteq> Stopping \<longrightarrow>
      status (server_on_close code s) = Idle \<and>
      childProcess (server_on_close code s) = None \<and>
      Emit_status Idle \<in> set (trace (server_on_close code s))) \<and>
   (status t \<noteq> TStopping \<longrightarrow>
      status (tunnel_on_close code t) = TIdle \<and>
      childProcess (tunnel_on_close code t) = None \<and>
      Emit_status TIdle \<in> set (trace (tunnel_on_close code t)))"
  by (simp add: server_on_close_def tunnel_on_close_def)

theorem unexpected_close_goes_idle_witness:
  "status ex_live \<noteq> Stopping \<and>
   status (server_on_close (Some 1) ex_live) = Idle \<and>
   childProcess (server_on_close (Some 1) ex_live) = None \<and>
   status ex_tunnel_live \<noteq> TStopping \<and>
   status (tunnel_on_close (Some 1) ex_tunnel_live) = TIdle \<and>
   childProcess (tunnel_on_close (Some 1) ex_tunnel_live) = None"
  using unexpected_close_goes_idle [of ex_live "Some 1" ex_tunnel_live]
  by (simp add: ex_live_def ex_tunnel_live_def)

subsection \<open>Repeated start\<close>

text \<open>
  C8. A \<open>start()\<close> issued while the status is \<open>running\<close> or \<open>starting\<close> succeeds and
  changes nothing but the trace, to which it adds one log line: no process is spawned,
  nothing is extracted, no file, setting or field of the manager changes.
\<close>

theorem start_while_active_is_noop:
  "(status s = Running \<or> status s = Starting \<longrightarrow>
      server_start io s =
        (None, s\<lparr>trace := trace s @
                   [Emit_log ''Server start requested but already running/starting.'']\<rparr>)) \<and>
   (status t = TRunning \<or> status t = TStarting \<longrightarrow>
      tunnel_start io lport t =
        (None, t\<lparr>trace := trace t @ [Emit_log ''Tunnel already running or starting.'']\<rparr>))"
  by (simp add: server_start_def tunnel_start_def emit_def)

theorem start_while_active_is_noop_witness:
  "status ex_live = Starting \<and>
   server_start ex_io ex_live =
     (None, ex_live\<lparr>trace := [Emit_log ''Server start requested but already running/starting.'']\<rparr>) \<and>
   status ex_tunnel_live = TStarting \<and>
   tunnel_start ex_io 4000 ex_tunnel_live =
     (None, ex_tunnel_live\<lparr>trace := [Emit_log ''Tunnel already running or starting.'']\<rparr>)"
  using start_while_active_is_noop [of ex_live ex_io ex_tunnel_live 4000]
  by (simp add: ex_live_def ex_tunnel_live_def)

subsection \<open>The second readiness marker\<close>

text \<open>
  C10. A chunk of the primary service's standard output that contains the text
  \<open>Nest application successfully started\<close> promotes the status to \<open>running\<close> and emits
  the status event, whether or not it contains the phrase \<open>listening on port <port>\<close>.
\<close>

theorem nest_marker_promotes:
  assumes "str_includes d ''Nest application successfully started''"
  shows "status (server_on_stdout d s) = Running \<and>
         Emit_status Running \<in> set (trace (server_on_stdout d s))"
proof -
  have "sublist ''Nest application successfully started'' (trim d)"
    using assms unfolding str_includes_def
    by (rule trim_keeps_piece) (simp_all add: is_ws_def)
  then show ?thesis
    by (simp add: server_on_stdout_def str_includes_def)
qed

theorem nest_marker_promotes_witness:
  "str_includes ''[Nest] 4242 - LOG Nest application successfully started +3ms''
     ''Nest application successfully started'' \<and>
   \<not> str_includes ''[Nest] 4242 - LOG Nest application successfully started +3ms''
     (''listening on port '' @ string_of_nat (port ex_live)) \<and>
   status (server_on_stdout ''[Nest] 4242 - LOG Nest application successfully started +3ms'' ex_live)
     = Running"
  using nest_marker_promotes
    [of "''[Nest] 4242 - LOG Nest application successfully started +3ms''" ex_live]
  by (simp add: str_includes_def sublist_code ex_live_def string_of_nat.simps digit_char_def)

subsection \<open>Two-phase shutdown\<close>

lemma server_stop_live:
  assumes "childProcess s = Some p"
  shows "fst (server_stop s) = StopPending (nextTimer s)"
    and "status (snd (server_stop s)) = Stopping"
    and "childProcess (snd (server_stop s)) = Some p"
    and "timers (snd (server_stop s)) = timers s @ [nextTimer s]"
    and "exitHooks (snd (server_stop s)) = exitHooks s @ [(p, nextTimer s)]"
    and "trace (snd (server_stop s)) = trace s @
          [Emit_status Stopping, Emit_log ''Status changed to: STOPPING'',
           Logger ''info'' ''Server status changed to: stopping'',
           Emit_log ''Stopping server process...'', Logger ''info'' ''Stopping server...'',
           Kill p SIGTERM]"
  using assms by (simp_all add: server_stop_def toUpperCase_def toUpper_def)

lemma server_exit_hook_sel [simp]:
  "status (server_exit_hook t s) = Idle"
  "childProcess (server_exit_hook t s) = None"
  "timers (server_exit_hook t s) = removeAll t (timers s)"
  "trace (server_exit_hook t s) = trace s @
     [Emit_log ''Server stopped gracefully.'', Emit_status Idle,
      Emit_log ''Status changed to: IDLE'', Logger ''info'' ''Server status changed to: idle'',
      Resolve t]"
  by (simp_all add: server_exit_hook_def toUpperCase_def toUpper_def)

lemma server_on_exit_after_stop:
  assumes "childProcess s = Some p"
  shows "server_on_exit p (snd (server_stop s)) =
         server_exit_hook (nextTimer s)
           (seq (map (\<lambda>h. server_exit_hook (snd h)) (filter (\<lambda>h. fst h = p) (exitHooks s)))
              (snd (server_stop s)))"
  by (simp add: server_on_exit_def server_stop_live [OF assms] seq_append)

lemma server_on_timeout_live:
  assumes "childProcess s = Some p" "t \<in> set (timers s)"
  shows "status (server_on_timeout t s) = Idle"
    and "childProcess (server_on_timeout t s) = None"
    and "timers (server_on_timeout t s) = removeAll t (timers s)"
    and "trace (server_on_timeout t s) = trace s @
          [Logger ''warn'' ''Server did not stop gracefully, force killing...'',
           Emit_log ''Server unresponsive, force killing...'',
           Kill p SIGKILL, Emit_status Idle,
           Emit_log ''Status changed to: IDLE'', Logger ''info'' ''Server status changed to: idle'',
           Resolve t]"
  using assms by (simp_all add: server_on_timeout_def toUpperCase_def toUpper_def)

lemma server_on_timeout_cleared: "t \<notin> set (timers s) \<Longrightarrow> server_on_timeout t s = s"
  by (simp add: server_on_timeout_def)

lemma tunnel_stop_live:
  assumes "childProcess s = Some p"
  shows "fst (tunnel_stop s) = StopPending (nextTimer s)"
    and "status (snd (tunnel_stop s)) = TStopping"
    and "childProcess (snd (tunnel_stop s)) = Some p"
    and "timers (snd (tunnel_stop s)) = timers s @ [nextTimer s]"
    and "exitHooks (snd (tunnel_stop s)) = exitHooks s @ [(p, nextTimer s)]"
    and "trace (snd (tunnel_stop s)) = trace s @
          [Emit_status TStopping, Logger ''info'' ''Tunnel status changed to: stopping'',
           Emit_log ''Stopping tunnel...'', Kill p SIGTERM]"
  using assms by (simp_all add: tunnel_stop_def)

lemma tunnel_exit_hook_sel [simp]:
  "status (tunnel_exit_hook t s) = TIdle"
  "childProcess (tunnel_exit_hook t s) = None"
  "tunnelUrl (tunnel_exit_hook t s) = None"
  "timers (tunnel_exit_hook t s) = removeAll t (timers s)"
  "trace (tunnel_exit_hook t s) = trace s @
     [Emit_url None, Emit_log ''Tunnel stopped.'', Emit_status TIdle,
      Logger ''info'' ''Tunnel status changed to: idle'', Resolve t]"
  by (simp_all add: tunnel_exit_hook_def tunnel_setStatus_def emit_def)

lemma tunnel_on_exit_after_stop:
  assumes "childProcess s = Some p"
  shows "tunnel_on_exit p (snd (tunnel_stop s)) =
         tunnel_exit_hook (nextTimer s)
           (seq (map (\<lambda>h. tunnel_exit_hook (snd h)) (filter (\<lambda>h. fst h = p) (exitHooks s)))
              (snd (tunnel_stop s)))"
  by (simp add: tunnel_on_exit_def tunnel_stop_live [OF assms] seq_append)

lemma tunnel_on_timeout_live:
  assumes "childProcess s = Some p" "t \<in> set (timers s)"
  shows "status (tunnel_on_timeout t s) = TIdle"
    and "childProcess (tunnel_on_timeout t s) = None"
    and "tunnelUrl (tunnel_on_timeout t s) = None"
    and "timers (tunnel_on_timeout t s) = removeAll t (timers s)"
    and "trace (tunnel_on_timeout t s) = trace s @
          [Logger ''warn'' ''Tunnel did not stop gracefully, force killing...'',
           Emit_log ''Force killing tunnel process...'',
           Kill p SIGKILL, Emit_url None, Emit_status TIdle,
           Logger ''info'' ''Tunnel status changed to: idle'', Resolve t]"
  using assms by (simp_all add: tunnel_on_timeout_def tunnel_setStatus_def emit_def)

lemma tunnel_on_timeout_cleared: "t \<notin> set (timers s) \<Longrightarrow> tunnel_on_timeout t s = s"
  by (simp add: tunnel_on_timeout_def)

text \<open>
  The two ordinary paths of the shutdown, where the process emits \<open>'exit'\<close> after
  \<open>stop()\<close> or the time-out fires while the handle is still in place.
  \<open>stop()\<close> on a manager with a live handle returns a pending promise, sets the status
  to \<open>stopping\<close>, arms a time-out and sends \<open>SIGTERM\<close> to the process, which stays the
  handle. If the process exits first, the time-out is cleared (its callback would do
  nothing), the handle is cleared, the status is \<open>idle\<close> and the promise is resolved. If
  the time-out fires first, \<open>SIGKILL\<close> is sent, the handle is cleared, the status is \<open>idle\<close>
  and the promise is resolved in the same callback, without waiting for the process to die.
\<close>

theorem stop_two_phase:
  "(childProcess s = Some p \<longrightarrow>
      (let s1 = snd (server_stop s); t = nextTimer s in
         fst (server_stop s) = StopPending t \<and> status s1 = Stopping \<and> childProcess s1 = Some p \<and>
         t \<in> set (timers s1) \<and>
         trace s1 = trace s @
           [Emit_status Stopping, Emit_log ''Status changed to: STOPPING'',
            Logger ''info'' ''Server status changed to: stopping'',
            Emit_log ''Stopping server process...'', Logger ''info'' ''Stopping server...'',
            Kill p SIGTERM] \<and>
         (let s2 = server_on_exit p s1 in
            t \<notin> set (timers s2) \<and> server_on_timeout t s2 = s2 \<and>
            childProcess s2 = None \<and> status s2 = Idle \<and> last (trace s2) = Resolve t) \<and>
         (let s3 = server_on_timeout t s1 in
            childProcess s3 = None \<and> status s3 = Idle \<and>
            trace s3 = trace s1 @
              [Logger ''warn'' ''Server did not stop gracefully, force killing...'',
               Emit_log ''Server unresponsive, force killing...'',
               Kill p SIGKILL, Emit_status Idle, Emit_log ''Status changed to: IDLE'',
               Logger ''info'' ''Server status changed to: idle'', Resolve t]))) \<and>
   (childProcess u = Some q \<longrightarrow>
      (let u1 = snd (tunnel_stop u); t = nextTimer u in
         fst (tunnel_stop u) = StopPending t \<and> status u1 = TStopping \<and> childProcess u1 = Some q \<and>
         t \<in> set (timers u1) \<and>
         trace u1 = trace u @
           [Emit_status TStopping, Logger ''info'' ''Tunnel status changed to: stopping'',
            Emit_log ''Stopping tunnel...'', Kill q SIGTERM] \<and>
         (let u2 = tunnel_on_exit q u1 in
            t \<notin> set (timers u2) \<and> tunnel_on_timeout t u2 = u2 \<and>
            childProcess u2 = None \<and> status u2 = TIdle \<and> last (trace u2) = Resolve t) \<and>
         (let u3 = tunnel_on_timeout t u1 in
            childProcess u3 = None \<and> status u3 = TIdle \<and>
            trace u3 = trace u1 @
              [Logger ''warn'' ''Tunnel did not stop gracefully, force killing...'',
               Emit_log ''Force killing tunnel process...'',
               Kill q SIGKILL, Emit_url None, Emit_status TIdle,
               Logger ''info'' ''Tunnel status changed to: idle'', Resolve t])))"
proof (intro conjI impI)
  assume live: "childProcess s = Some p"
  note st = server_stop_live [OF live]
  have t_in: "nextTimer s \<in> set (timers (snd (server_stop s)))"
    by (simp add: st)
  show "let s1 = snd (server_stop s); t = nextTimer s in
         fst (server_stop s) = StopPending t \<and> status s1 = Stopping \<and> childProcess s1 = Some p \<and>
         t \<in> set (timers s1) \<and>
         trace s1 = trace s @
           [Emit_status Stopping, Emit_log ''Status changed to: STOPPING'',
            Logger ''info'' ''Server status changed to: stopping'',
            Emit_log ''Stopping server process...'', Logger ''info'' ''Stopping server...'',
            Kill p SIGTERM] \<and>
         (let s2 = server_on_exit p s1 in
            t \<notin> set (timers s2) \<and> server_on_timeout t s2 = s2 \<and>
            childProcess s2 = None \<and> status s2 = Idle \<and> last (trace s2) = Resolve t) \<and>
         (let s3 = server_on_timeout t s1 in
            childProcess s3 = None \<and> status s3 = Idle \<and>
            trace s3 = trace s1 @
              [Logger ''warn'' ''Server did not stop gracefully, force killing...'',
               Emit_log ''Server unresponsive, force killing...'',
               Kill p SIGKILL, Emit_status Idle, Emit_log ''Status changed to: IDLE'',
               Logger ''info'' ''Server status changed to: idle'', Resolve t])"
    unfolding Let_def
    by (simp add: server_on_exit_after_stop [OF live] server_on_timeout_cleared
          server_on_timeout_live [OF st(3) t_in] st)
next
  assume live: "childProcess u = Some q"
  note st = tunnel_stop_live [OF live]
  have t_in: "nextTimer u \<in> set (timers (snd (tunnel_stop u)))"
    by (simp add: st)
  show "let u1 = snd (tunnel_stop u); t = nextTimer u in
         fst (tunnel_stop u) = StopPending t \<and> status u1 = TStopping \<and> childProcess u1 = Some q \<and>
         t \<in> set (timers u1) \<and>
         trace u1 = trace u @
           [Emit_status TStopping, Logger ''info'' ''Tunnel status changed to: stopping'',
            Emit_log ''Stopping tunnel...'', Kill q SIGTERM] \<and>
         (let u2 = tunnel_on_exit q u1 in
            t \<notin> set (timers u2) \<and> tunnel_on_timeout t u2 = u2 \<and>
            childProcess u2 = None \<and> status u2 = TIdle \<and> last (trace u2) = Resolve t) \<and>
         (let u3 = tunnel_on_timeout t u1 in
            childProcess u3 = None \<and> status u3 = TIdle \<and>
            trace u3 = trace u1 @
              [Logger ''warn'' ''Tunnel did not stop gracefully, force killing...'',
               Emit_log ''Force killing tunnel process...'',
               Kill q SIGKILL, Emit_url None, Emit_status TIdle,
               Logger ''info'' ''Tunnel status changed to: idle'', Resolve t])"
    unfolding Let_def
    by (simp add: tunnel_on_exit_after_stop [OF live] tunnel_on_timeout_cleared
          tunnel_on_timeout_live [OF st(3) t_in] st)
qed

lemmas run_eval = server_stop_def server_on_timeout_def server_on_exit_def server_exit_hook_def
  tunnel_stop_def tunnel_on_timeout_def tunnel_on_exit_def tunnel_exit_hook_def
  server_setStatus_def tunnel_setStatus_def emit_def toUpperCase_def toUpper_def

theorem stop_two_phase_witness:
  "childProcess ex_live = Some 0 \<and>
   status (snd (server_stop ex_live)) = Stopping \<and>
   status (server_on_exit 0 (snd (server_stop ex_live))) = Idle \<and>
   timers (server_on_exit 0 (snd (server_stop ex_live))) = [] \<and>
   childProcess (server_on_timeout 0 (snd (server_stop ex_live))) = None \<and>
   childProcess ex_tunnel_live = Some 0 \<and>
   status (snd (tunnel_stop ex_tunnel_live)) = TStopping \<and>
   status (tunnel_on_exit 0 (snd (tunnel_stop ex_tunnel_live))) = TIdle \<and>
   timers (tunnel_on_exit 0 (snd (tunnel_stop ex_tunnel_live))) = [] \<and>
   childProcess (tunnel_on_timeout 0 (snd (tunnel_stop ex_tunnel_live))) = None"
  using stop_two_phase [of ex_live 0 ex_tunnel_live 0]
  by (simp add: ex_live_def ex_tunnel_live_def run_eval)

text \<open>
  C5. \<open>stop()\<close> on a live handle is meant to end in \<open>idle\<close>, by the exit of the
  process or by the forced kill after the time-out. The handle stays in place between the
  \<open>'exit'\<close> and the \<open>'close'\<close> event of a child process, and only \<open>'close'\<close> is listened
  for from the start. A \<open>stop()\<close> issued in between finds the handle, sends \<open>SIGTERM\<close>
  and waits for an \<open>'exit'\<close> event that has already passed. Then \<open>'close'\<close> clears the
  handle and leaves the status \<open>stopping\<close>, the time-out finds no handle and does
  nothing: no \<open>SIGKILL\<close> is sent, the status stays \<open>stopping\<close>, and the promise is
  never resolved.
\<close>

theorem stop_after_exit_never_completes:
  "server_on_exit 0 ex_live = ex_live \<and>
   status (server_on_timeout 0 (server_on_close (Some 0) (snd (server_stop ex_live)))) = Stopping \<and>
   childProcess (server_on_timeout 0 (server_on_close (Some 0) (snd (server_stop ex_live)))) = None \<and>
   timers (server_on_timeout 0 (server_on_close (Some 0) (snd (server_stop ex_live)))) = [] \<and>
   trace (server_on_timeout 0 (server_on_close (Some 0) (snd (server_stop ex_live)))) =
     [Emit_status Stopping, Emit_log ''Status changed to: STOPPING'',
      Logger ''info'' ''Server status changed to: stopping'',
      Emit_log ''Stopping server process...'', Logger ''info'' ''Stopping server...'',
      Kill 0 SIGTERM, Logger ''info'' ''Server process exited with code 0''] \<and>
   tunnel_on_exit 0 ex_tunnel_live = ex_tunnel_live \<and>
   status (tunnel_on_timeout 0 (tunnel_on_close (Some 0) (snd (tunnel_stop ex_tunnel_live))))
     = TStopping \<and>
   childProcess (tunnel_on_timeout 0 (tunnel_on_close (Some 0) (snd (tunnel_stop ex_tunnel_live))))
     = None \<and>
   timers (tunnel_on_timeout 0 (tunnel_on_close (Some 0) (snd (tunnel_stop ex_tunnel_live)))) = [] \<and>
   trace (tunnel_on_timeout 0 (tunnel_on_close (Some 0) (snd (tunnel_stop ex_tunnel_live)))) =
     [Emit_status TStopping, Logger ''info'' ''Tunnel status changed to: stopping'',
      Emit_log ''Stopping tunnel...'', Kill 0 SIGTERM,
      Logger ''info'' ''Tunnel process exited with code 0'', Emit_url None]"
  by (simp add: ex_live_def ex_tunnel_live_def run_eval server_on_close_def tunnel_on_close_def
        string_of_code_def string_of_nat.simps digit_char_def)

text \<open>
  C4. The shutdown is meant to complete once. After a \<open>stop()\<close> whose time-out fires first,
  the killed process still emits \<open>'exit'\<close>, and the listener that \<open>stop()\<close> left on it runs
  as well: the promise is resolved a second time, the \<open>idle\<close> status event is emitted a
  second time, and the primary service logs a graceful stop after the forced kill.
\<close>

theorem forced_kill_then_exit_completes_twice:
  "trace (server_on_exit 0 (server_on_timeout 0 (snd (server_stop ex_live)))) =
     [Emit_status Stopping, Emit_log ''Status changed to: STOPPING'',
      Logger ''info'' ''Server status changed to: stopping'',
      Emit_log ''Stopping server process...'', Logger ''info'' ''Stopping server...'',
      Kill 0 SIGTERM,
      Logger ''warn'' ''Server did not stop gracefully, force killing...'',
      Emit_log ''Server unresponsive, force killing...'',
      Kill 0 SIGKILL, Emit_status Idle, Emit_log ''Status changed to: IDLE'',
      Logger ''info'' ''Server status changed to: idle'', Resolve 0,
      Emit_log ''Server stopped gracefully.'', Emit_status Idle,
      Emit_log ''Status changed to: IDLE'', Logger ''info'' ''Server status changed to: idle'',
      Resolve 0] \<and>
   trace (tunnel_on_exit 0 (tunnel_on_timeout 0 (snd (tunnel_stop ex_tunnel_live)))) =
     [Emit_status TStopping, Logger ''info'' ''Tunnel status changed to: stopping'',
      Emit_log ''Stopping tunnel...'', Kill 0 SIGTERM,
      Logger ''warn'' ''Tunnel did not stop gracefully, force killing...'',
      Emit_log ''Force killing tunnel process...'',
      Kill 0 SIGKILL, Emit_url None, Emit_status TIdle,
      Logger ''info'' ''Tunnel status changed to: idle'', Resolve 0,
      Emit_url None, Emit_log ''Tunnel stopped.'', Emit_status TIdle,
      Logger ''info'' ''Tunnel status changed to: idle'', Resolve 0]"
  by (simp add: ex_live_def ex_tunnel_live_def run_eval)

subsection \<open>The quick-tunnel URL\<close>

lemma parse_match:
  assumes "quickTunnelMatch msg = Some m"
  shows "status (parseTunnelOutput msg s) = TRunning"
    and "tunnelUrl (parseTunnelOutput msg s) = Some m"
    and "saved_tunnelUrl (parseTunnelOutput msg s) = Some m"
    and "childProcess (parseTunnelOutput msg s) = childProcess s"
    and "trace (parseTunnelOutput msg s) =
           trace s @
           [Emit_log (''Tunnel URL: '' @ m), Emit_url (Some m), Emit_status TRunning,
            Logger ''info'' ''Tunnel status changed to: running''] @
           (if str_includes msg ''Connection'' \<and> str_includes msg ''registered''
            then (if \<not> str_includes m ''trycloudflare'' then [Emit_url (Some m)] else []) @
                 [Emit_status TRunning, Logger ''info'' ''Tunnel status changed to: running'']
            else [])"
  using assms quickTunnelMatch_sound(3) [OF assms]
  by (simp_all add: parseTunnelOutput_def truthy_def saved_tunnelUrl_def)

lemma quick_url_ends:
  assumes "quick_url u"
  shows "u \<noteq> []" and "\<not> is_ws (hd u)" and "\<not> is_ws (last u)"
proof -
  from assms obtain lbl where u: "u = ''https://'' @ lbl @ ''.trycloudflare.com''"
    unfolding quick_url_def by (elim exE conjE) (rule that)
  show "u \<noteq> []" by (simp add: u)
  show "\<not> is_ws (hd u)" by (simp add: u is_ws_def)
  show "\<not> is_ws (last u)" by (simp add: u is_ws_def)
qed

text \<open>
  C9. When a chunk of the tunnel's output contains a URL of the form
  \<open>https://<label>.trycloudflare.com\<close>, the handler finds a match \<open>m\<close>: it is a piece of
  the chunk taken as it stands, it has the form of the pattern, and no URL of that form
  starts earlier in the chunk. \<open>m\<close> becomes the tunnel endpoint, is stored in the
  configuration, and the status becomes \<open>running\<close>. Standard output and standard error
  are treated alike.
\<close>

theorem quick_tunnel_url_recorded:
  assumes "d = pre @ u @ post" and "quick_url u"
  shows "\<exists>m a b. quickTunnelMatch (trim d) = Some m \<and> trim d = a @ m @ b \<and> quick_url_ci m \<and>
           (\<forall>i < length a. \<forall>v w. drop i (trim d) = v @ w \<longrightarrow> \<not> quick_url_ci v) \<and>
           sublist m d \<and>
           tunnelUrl (tunnel_on_stdout d s) = Some m \<and>
           saved_tunnelUrl (tunnel_on_stdout d s) = Some m \<and>
           status (tunnel_on_stdout d s) = TRunning \<and>
           tunnel_on_stderr d s = tunnel_on_stdout d s"
proof -
  have "sublist u d" using assms(1) by (auto simp: sublist_def)
  then have "sublist u (trim d)"
    using quick_url_ends [OF assms(2)] by (rule trim_keeps_piece)
  then obtain pre' post' where "trim d = pre' @ u @ post'"
    by (auto simp: sublist_def)
  from quickTunnelMatch_complete [OF this quick_url_is_ci [OF assms(2)]]
  obtain m where m: "quickTunnelMatch (trim d) = Some m" ..
  from quickTunnelMatch_Some [OF m] obtain a b' where ab: "trim d = a @ b'"
    "match_at b' = Some m" "\<forall>i < length a. match_at (drop i (trim d)) = None"
    by (elim exE conjE) (rule that)
  from match_at_Some [OF ab(2)] have pm: "prefix m b'" and ci: "quick_url_ci m" .
  from pm obtain b where "b' = m @ b" by (auto simp: prefix_def)
  with ab(1) have split: "trim d = a @ m @ b" by simp
  have left: "\<forall>i < length a. \<forall>v w. drop i (trim d) = v @ w \<longrightarrow> \<not> quick_url_ci v"
  proof (intro allI impI notI)
    fix i v w assume i: "i < length a" and vw: "drop i (trim d) = v @ w" and "quick_url_ci v"
    from this(3) have "match_at (v @ w) \<noteq> None" by (rule match_at_complete)
    moreover from ab(3) i have "match_at (drop i (trim d)) = None" by blast
    ultimately show False using vw by simp
  qed
  have "sublist m (trim d)" using m by (rule quickTunnelMatch_sound)
  then have sub: "sublist m d"
    using trim_sublist by (rule sublist_order.order.trans)
  note pm = parse_match [OF m]
  have "tunnelUrl (tunnel_on_stdout d s) = Some m"
       "saved_tunnelUrl (tunnel_on_stdout d s) = Some m"
       "status (tunnel_on_stdout d s) = TRunning"
       "tunnel_on_stderr d s = tunnel_on_stdout d s"
    by (simp_all add: tunnel_on_stdout_def tunnel_on_stderr_def pm)
  with m split ci left sub show ?thesis by (intro exI conjI)
qed

lemma ex_line_match: "quickTunnelMatch (trim ex_line) = Some ex_url"
  by (simp add: ex_line_def ex_url_def trim_def is_ws_def match_at_def is_label_char_def toUpper_def)

lemma ex_url_quick: "quick_url ex_url"
  unfolding quick_url_def ex_url_def by (rule exI [of _ "''abc-def-123''"]) simp

theorem quick_tunnel_url_recorded_witness:
  "ex_line = ''INF |  '' @ ex_url @ ''  |  '' \<and> quick_url ex_url \<and>
   tunnelUrl (tunnel_on_stdout ex_line ex_tunnel_live) = Some ex_url \<and>
   saved_tunnelUrl (tunnel_on_stdout ex_line ex_tunnel_live) = Some ex_url \<and>
   status (tunnel_on_stdout ex_line ex_tunnel_live) = TRunning"
proof -
  have d: "ex_line = ''INF |  '' @ ex_url @ ''  |  ''"
    by (simp add: ex_line_def ex_url_def)
  from quick_tunnel_url_recorded [OF d ex_url_quick, of ex_tunnel_live]
  obtain m where m: "quickTunnelMatch (trim ex_line) = Some m"
    and r: "tunnelUrl (tunnel_on_stdout ex_line ex_tunnel_live) = Some m"
      "saved_tunnelUrl (tunnel_on_stdout ex_line ex_tunnel_live) = Some m"
      "status (tunnel_on_stdout ex_line ex_tunnel_live) = TRunning"
    by (elim exE conjE) (rule that)
  from m have "m = ex_url" by (simp only: ex_line_match option.inject)
  with r d ex_url_quick show ?thesis by (intro conjI) (simp_all only:)
qed

subsection \<open>Readiness on every matching line\<close>

lemma emitted_append [simp]: "trace s' = trace s @ es \<Longrightarrow> emitted s s' = es"
  by (simp add: emitted_def)

lemma server_on_stdout_match:
  assumes "str_includes (trim d) ''Nest application successfully started'' \<or>
           str_includes (trim d) (''listening on port '' @ string_of_nat (port s))"
  shows "server_on_stdout d s =
           s\<lparr>status := Running,
             trace := trace s @
               [Logger ''debug'' (''[SERVER] '' @ trim d), Emit_log (trim d),
                Emit_status Running, Emit_log ''Status changed to: RUNNING'',
                Logger ''info'' ''Server status changed to: running'']\<rparr>"
  using assms
  by (simp add: server_on_stdout_def server_setStatus_def emit_def toUpperCase_def toUpper_def)







lemma ex_ready_marker:
  "str_includes (trim ex_ready) (''listening on port '' @ string_of_nat (port ex_live))"
  by (simp add: ex_ready_def ex_live_def trim_def is_ws_def str_includes_def sublist_code
        string_of_nat.simps digit_char_def)



subsection \<open>Status and handle\<close>

lemma run_last:
  "run (fs @ [f]) s = (None, s') \<Longrightarrow> \<exists>s1. f s1 = (None, s')"
proof (induction fs arbitrary: s)
  case Nil
  then show ?case by (auto split: prod.splits option.splits)
next
  case (Cons g gs)
  then show ?case by (auto split: prod.splits option.splits)
qed

lemma spawnServer_status: "status (snd (spawnServer io s)) = Starting"
  by (simp add: spawnServer_def ok_def throw_def spawn_def split: option.splits)

lemma spawnServer_handle:
  "fst (spawnServer io s) = None \<Longrightarrow> childProcess (snd (spawnServer io s)) \<noteq> None"
  by (auto simp: spawnServer_def ok_def throw_def spawn_def split: option.splits if_splits)

lemma start_try_block_ok:
  assumes "start_try_block io s = (None, s')"
  shows "status s' = Starting" and "childProcess s' \<noteq> None"
proof -
  have "start_try_block io =
          run ([ok (emit (Emit_log ''Starting initialization sequence...'')),
                extractServerIfNeeded io, ensureDatabase io] @ [spawnServer io])"
    by (simp add: start_try_block_def)
  with assms run_last obtain s1 where s1: "spawnServer io s1 = (None, s')" by metis
  with spawnServer_status [of io s1] show "status s' = Starting" by simp
  from s1 spawnServer_handle [of io s1] show "childProcess s' \<noteq> None" by simp
qed

lemma server_start_inv:
  assumes "server_inv s"
  shows "server_inv (snd (server_start io s))"
proof (cases "status s = Running \<or> status s = Starting")
  case True
  with assms show ?thesis by (auto simp: server_start_def server_inv_def)
next
  case False
  obtain r s' where r: "start_try_block io (s\<lparr>port := configured_port s\<rparr>) = (r, s')"
    by (cases "start_try_block io (s\<lparr>port := configured_port s\<rparr>)")
  show ?thesis
  proof (cases r)
    case None
    with r start_try_block_ok have "status s' = Starting" "childProcess s' \<noteq> None"
      by blast+
    with False r None show ?thesis by (simp add: server_start_def server_inv_def)
  next
    case (Some e)
    with False r show ?thesis
      by (simp add: server_start_def ok_def emit_error_def server_inv_def)
  qed
qed

lemma server_exit_hooks_inv:
  "server_inv s \<Longrightarrow> server_inv (seq (map (\<lambda>h. server_exit_hook (snd h)) hs) s)"
proof (induction hs arbitrary: s)
  case Nil
  then show ?case by simp
next
  case (Cons h hs)
  have "server_inv (server_exit_hook (snd h) s)"
    by (simp add: server_inv_def)
  from Cons.IH [OF this] show ?case by simp
qed

lemma server_reach_inv: "server_reach s \<Longrightarrow> server_inv s"
proof (induction rule: server_reach.induct)
  case (sr_init s)
  then show ?case by (simp add: server_initial_def server_inv_def)
next
  case (sr_start s io)
  from sr_start.IH show ?case by (rule server_start_inv)
next
  case (sr_stop s)
  then show ?case by (auto simp: server_inv_def server_stop_def split: option.splits)
next
  case (sr_stdout s p d)
  then show ?case by (auto simp: server_inv_def server_on_stdout_def)
next
  case (sr_stderr s p d)
  then show ?case by (auto simp: server_inv_def server_on_stderr_def)
next
  case (sr_error s p e)
  then show ?case by (auto simp: server_inv_def server_on_error_def ok_def emit_error_def)
next
  case (sr_exit s p)
  from sr_exit.IH show ?case unfolding server_on_exit_def by (rule server_exit_hooks_inv)
next
  case (sr_close s p code)
  then show ?case by (auto simp: server_inv_def server_on_close_def)
next
  case (sr_timeout s t)
  then show ?case by (auto simp: server_inv_def server_on_timeout_def split: option.splits)
next
  case (sr_world s d db z cp cv cc)
  then show ?case by (simp add: server_inv_def)
qed

lemma parseTunnelOutput_frame:
  "childProcess (parseTunnelOutput msg t) = childProcess t"
  "status (parseTunnelOutput msg t) \<in> {status t, TRunning, TError}"
  by (simp_all add: parseTunnelOutput_def split: option.splits)

lemma tunnel_start_inv:
  assumes "tunnel_inv t"
  shows "tunnel_inv (snd (tunnel_start io lport t))"
  using assms
  by (auto simp: tunnel_inv_def tunnel_start_def tunnel_spawn_def Let_def ok_def throw_def
        spawn_def split: option.splits if_splits)

lemma tunnel_exit_hooks_inv:
  "tunnel_inv t \<Longrightarrow> tunnel_inv (seq (map (\<lambda>h. tunnel_exit_hook (snd h)) hs) t)"
proof (induction hs arbitrary: t)
  case Nil
  then show ?case by simp
next
  case (Cons h hs)
  have "tunnel_inv (tunnel_exit_hook (snd h) t)"
    by (simp add: tunnel_inv_def)
  from Cons.IH [OF this] show ?case by simp
qed

lemma tunnel_reach_inv: "tunnel_reach t \<Longrightarrow> tunnel_inv t"
proof (induction rule: tunnel_reach.induct)
  case (tr_init s)
  then show ?case by (simp add: tunnel_initial_def tunnel_inv_def)
next
  case (tr_start s io lport)
  from tr_start.IH show ?case by (rule tunnel_start_inv)
next
  case (tr_stop s)
  then show ?case by (auto simp: tunnel_inv_def tunnel_stop_def split: option.splits)
next
  case (tr_stdout s p d)
  with parseTunnelOutput_frame [of "trim d"
      "emit (Emit_log (''[Tunnel] '' @ trim d)) (emit (Logger ''debug'' (''[TUNNEL] '' @ trim d)) s)"]
  show ?case by (auto simp: tunnel_inv_def tunnel_on_stdout_def)
next
  case (tr_stderr s p d)
  with parseTunnelOutput_frame [of "trim d"
      "emit (Emit_log (''[Tunnel] '' @ trim d)) (emit (Logger ''debug'' (''[TUNNEL] '' @ trim d)) s)"]
  show ?case by (auto simp: tunnel_inv_def tunnel_on_stderr_def)
next
  case (tr_error s p e)
  then show ?case by (auto simp: tunnel_inv_def tunnel_on_error_def ok_def emit_error_def)
next
  case (tr_exit s p)
  from tr_exit.IH show ?case unfolding tunnel_on_exit_def by (rule tunnel_exit_hooks_inv)
next
  case (tr_close s p code)
  then show ?case by (auto simp: tunnel_inv_def tunnel_on_close_def)
next
  case (tr_timeout s t)
  then show ?case by (auto simp: tunnel_inv_def tunnel_on_timeout_def split: option.splits)
next
  case (tr_world s d c)
  then show ?case by (simp add: tunnel_inv_def)
qed

lemmas start_eval = server_start_def start_try_block_def extractServerIfNeeded_def
  ensureDatabase_def spawnServer_def ok_def throw_def emit_def server_setStatus_def
  needsExtraction_def existsSync_def exeName_def cloudflaredRel_def cleanup_def mkdirSync_def
  extractAllTo_def spawn_def configured_port_def emit_error_def

lemma ex_started_state: "ex_started = ex_live\<lparr>trace := trace ex_started\<rparr>"
  by (simp add: ex_started_def ex_live_def ex_idle_def ex_io_def ex_zip_def start_eval)

lemma ex_started_sel:
  "status ex_started = Starting" "childProcess ex_started = Some 0" "nextPid ex_started = 1"
  "port ex_started = 4000" "exitHooks ex_started = []" "nextTimer ex_started = 0"
  by (subst ex_started_state, simp add: ex_live_def)+

lemma ex_tunnel_started_sel:
  "status ex_tunnel_started = TStarting" "childProcess ex_tunnel_started = Some 0"
  "nextPid ex_tunnel_started = 1" "tunnelUrl ex_tunnel_started = None"
  by (simp_all add: ex_tunnel_started_def ex_tunnel_idle_def ex_io_def ex_zip_def
        tunnel_start_def tunnel_spawn_def existsSync_def cloudflaredRel_def ok_def throw_def
        spawn_def Let_def truthy_def saved_tunnelToken_def)

lemma ex_reach: "server_reach ex_started" "tunnel_reach ex_tunnel_started"
proof -
  have "server_initial ex_idle"
    by (simp add: server_initial_def ex_idle_def configured_port_def)
  then have "server_reach ex_idle" by (rule sr_init)
  then show "server_reach ex_started" unfolding ex_started_def by (rule sr_start)
  have "tunnel_initial ex_tunnel_idle"
    by (simp add: tunnel_initial_def ex_tunnel_idle_def)
  then have "tunnel_reach ex_tunnel_idle" by (rule tr_init)
  then show "tunnel_reach ex_tunnel_started" unfolding ex_tunnel_started_def by (rule tr_start)
qed

text \<open>
  C2, as the code has it. In every state a manager can reach, between its operations and
  handlers: a live handle goes with one of the statuses \<open>starting\<close>, \<open>running\<close>,
  \<open>stopping\<close> or \<open>error\<close>, and the status \<open>starting\<close> goes with a live handle; in
  particular the handle is empty whenever the status is \<open>idle\<close>. The statuses
  \<open>extracting\<close> and \<open>migrating\<close> occur only inside \<open>start()\<close>.
\<close>

theorem live_handle_status:
  "(server_reach s \<longrightarrow>
      (childProcess s \<noteq> None \<longrightarrow> status s \<in> {Starting, Running, Stopping, Error}) \<and>
      (status s = Starting \<longrightarrow> childProcess s \<noteq> None) \<and>
      (status s = Idle \<longrightarrow> childProcess s = None)) \<and>
   (tunnel_reach t \<longrightarrow>
      (childProcess t \<noteq> None \<longrightarrow> status t \<in> {TStarting, TRunning, TStopping, TError}) \<and>
      (status t = TStarting \<longrightarrow> childProcess t \<noteq> None) \<and>
      (status t = TIdle \<longrightarrow> childProcess t = None))"
proof (intro conjI impI)
  assume "server_reach s"
  then have i: "server_inv s" by (rule server_reach_inv)
  { assume "status s = Idle" with i show "childProcess s = None" by (simp add: server_inv_def) }
  { assume "status s = Starting"
    with i show "childProcess s \<noteq> None" by (simp add: server_inv_def) }
  { assume "childProcess s \<noteq> None"
    with i show "status s \<in> {Starting, Running, Stopping, Error}"
      by (cases "status s") (auto simp: server_inv_def) }
next
  assume "tunnel_reach t"
  then have i: "tunnel_inv t" by (rule tunnel_reach_inv)
  { assume "status t = TIdle" with i show "childProcess t = None" by (simp add: tunnel_inv_def) }
  { assume "status t = TStarting"
    with i show "childProcess t \<noteq> None" by (simp add: tunnel_inv_def) }
  { assume "childProcess t \<noteq> None"
    with i show "status t \<in> {TStarting, TRunning, TStopping, TError}"
      by (cases "status t") (auto simp: tunnel_inv_def) }
qed

theorem live_handle_status_witness:
  "server_reach (server_on_close (Some 1) ex_started) \<and>
   status (server_on_close (Some 1) ex_started) = Idle \<and>
   childProcess (server_on_close (Some 1) ex_started) = None \<and>
   server_reach ex_started \<and> status ex_started = Starting \<and>
   childProcess ex_started \<noteq> None \<and>
   status ex_started \<in> {Starting, Running, Stopping, Error} \<and>
   tunnel_reach (tunnel_on_close (Some 1) ex_tunnel_started) \<and>
   status (tunnel_on_close (Some 1) ex_tunnel_started) = TIdle \<and>
   childProcess (tunnel_on_close (Some 1) ex_tunnel_started) = None \<and>
   tunnel_reach ex_tunnel_started \<and> status ex_tunnel_started = TStarting \<and>
   childProcess ex_tunnel_started \<noteq> None \<and>
   status ex_tunnel_started \<in> {TStarting, TRunning, TStopping, TError}"
proof -
  have r1: "server_reach (server_on_close (Some 1) ex_started)"
    using ex_reach(1) by (rule sr_close [where p = 0]) (simp add: ex_started_sel)
  have r2: "tunnel_reach (tunnel_on_close (Some 1) ex_tunnel_started)"
    using ex_reach(2) by (rule tr_close [where p = 0]) (simp add: ex_tunnel_started_sel)
  have i1: "status (server_on_close (Some 1) ex_started) = Idle"
    by (simp add: server_on_close_def ex_started_sel)
  have i2: "status (tunnel_on_close (Some 1) ex_tunnel_started) = TIdle"
    by (simp add: tunnel_on_close_def ex_tunnel_started_sel)
  from live_handle_status [of "server_on_close (Some 1) ex_started"
      "tunnel_on_close (Some 1) ex_tunnel_started"]
    live_handle_status [of ex_started ex_tunnel_started]
    r1 r2 i1 i2 ex_reach
  show ?thesis by (simp add: ex_started_sel ex_tunnel_started_sel)
qed

text \<open>
  C2 as stated fails in both directions. An \<open>'error'\<close> event of the spawned service leaves
  the status \<open>error\<close> with the handle in place, and so does a line with the word
  \<open>failed\<close> on the tunnel's standard error before any URL was seen. Output that arrives
  after the \<open>'exit'\<close> event of a stopped service sets the status to \<open>running\<close> when the
  handle is already empty. And when \<open>'close'\<close> comes after \<open>stop()\<close> without the \<open>'exit'\<close>
  listener of \<open>stop()\<close> having run, the handle is cleared while the status stays
  \<open>stopping\<close>.
\<close>

theorem error_with_live_handle:
  "server_reach (snd (server_on_error ex_spawn_err ex_started)) \<and>
   status (snd (server_on_error ex_spawn_err ex_started)) = Error \<and>
   childProcess (snd (server_on_error ex_spawn_err ex_started)) = Some 0 \<and>
   server_reach (server_on_stdout ex_ready (server_on_exit 0 (snd (server_stop ex_started)))) \<and>
   status (server_on_stdout ex_ready (server_on_exit 0 (snd (server_stop ex_started)))) = Running \<and>
   childProcess (server_on_stdout ex_ready (server_on_exit 0 (snd (server_stop ex_started)))) = None \<and>
   server_reach (server_on_close (Some 0) (snd (server_stop ex_started))) \<and>
   status (server_on_close (Some 0) (snd (server_stop ex_started))) = Stopping \<and>
   childProcess (server_on_close (Some 0) (snd (server_stop ex_started))) = None \<and>
   tunnel_reach (tunnel_on_stderr ex_failed_line ex_tunnel_started) \<and>
   status (tunnel_on_stderr ex_failed_line ex_tunnel_started) = TError \<and>
   childProcess (tunnel_on_stderr ex_failed_line ex_tunnel_started) = Some 0"
proof -
  have a1: "server_reach (snd (server_on_error ex_spawn_err ex_started))"
    using ex_reach(1) by (rule sr_error [where p = 0]) (simp add: ex_started_sel)
  have a2: "status (snd (server_on_error ex_spawn_err ex_started)) = Error"
    "childProcess (snd (server_on_error ex_spawn_err ex_started)) = Some 0"
    by (simp_all add: server_on_error_def ok_def emit_error_def ex_started_sel)
  note st = server_stop_live [OF ex_started_sel(2)]
  have x: "server_on_exit 0 (snd (server_stop ex_started)) =
           server_exit_hook 0 (snd (server_stop ex_started))"
    by (simp add: server_on_exit_after_stop [OF ex_started_sel(2)] ex_started_sel)
  have pt: "port (server_exit_hook 0 (snd (server_stop ex_started))) = 4000"
    by (simp add: server_exit_hook_def server_stop_def ex_started_sel)
  have np: "nextPid (snd (server_stop ex_started)) = 1"
    "nextPid (server_exit_hook 0 (snd (server_stop ex_started))) = 1"
    by (simp_all add: server_exit_hook_def server_stop_def ex_started_sel)
  have rs: "server_reach (snd (server_stop ex_started))"
    using ex_reach(1) by (rule sr_stop)
  from rs have d1: "server_reach (server_on_close (Some 0) (snd (server_stop ex_started)))"
    by (rule sr_close [where p = 0]) (simp add: np)
  have d2: "status (server_on_close (Some 0) (snd (server_stop ex_started))) = Stopping"
    "childProcess (server_on_close (Some 0) (snd (server_stop ex_started))) = None"
    by (simp_all add: server_on_close_def st)
  from rs have "server_reach (server_on_exit 0 (snd (server_stop ex_started)))"
    by (rule sr_exit) (simp add: np)
  then have b1: "server_reach
      (server_on_stdout ex_ready (server_on_exit 0 (snd (server_stop ex_started))))"
    by (rule sr_stdout [where p = 0]) (simp add: x np)
  have mk: "str_includes (trim ex_ready) ''Nest application successfully started'' \<or>
      str_includes (trim ex_ready) (''listening on port '' @
        string_of_nat (port (server_exit_hook 0 (snd (server_stop ex_started)))))"
    using ex_ready_marker by (simp add: pt ex_live_def)
  have b2: "status (server_on_stdout ex_ready (server_on_exit 0 (snd (server_stop ex_started))))
      = Running"
    "childProcess (server_on_stdout ex_ready (server_on_exit 0 (snd (server_stop ex_started))))
      = None"
    unfolding x by (subst server_on_stdout_match [OF mk], simp)+
  have c1: "tunnel_reach (tunnel_on_stderr ex_failed_line ex_tunnel_started)"
    using ex_reach(2) by (rule tr_stderr [where p = 0]) (simp add: ex_tunnel_started_sel)
  have nm: "quickTunnelMatch (trim ex_failed_line) = None"
    by (simp add: ex_failed_line_def trim_def is_ws_def match_at_def toUpper_def)
  have fl: "str_includes (trim ex_failed_line) ''failed''"
    "\<not> str_includes (trim ex_failed_line) ''Connection''"
    by (simp_all add: ex_failed_line_def trim_def is_ws_def str_includes_def sublist_code)
  have c2: "status (tunnel_on_stderr ex_failed_line ex_tunnel_started) = TError"
    "childProcess (tunnel_on_stderr ex_failed_line ex_tunnel_started) = Some 0"
    by (simp_all add: tunnel_on_stderr_def parseTunnelOutput_def ex_tunnel_started_sel
          nm fl truthy_def)
  from a1 a2 b1 b2 d1 d2 c1 c2 show ?thesis by (intro conjI)
qed

subsection \<open>Resource extraction\<close>

lemma cleanup_sel [simp]:
  "server_dir (cleanup io s) =
     (case server_dir s of
        None \<Rightarrow> None
      | Some d \<Rightarrow> (case rm_error io of None \<Rightarrow> None | Some (e, keep) \<Rightarrow> Some (d |` keep)))"
  "server_zip (cleanup io s) = server_zip s"
  "cfg_serverVersion (cleanup io s) = cfg_serverVersion s"
  "childProcess (cleanup io s) = childProcess s"
  "errorListeners (cleanup io s) = errorListeners s"
  "status (cleanup io s) = status s"
  "trace (cleanup io s) =
     trace s @
     (case server_dir s of
        None \<Rightarrow> []
      | Some d \<Rightarrow>
          (case rm_error io of
             None \<Rightarrow> [Emit_log ''Cleaning up old server files...'']
           | Some (e, keep) \<Rightarrow>
               [Emit_log ''Cleaning up old server files...'',
                Emit_log (''Warning: Failed to clean old files: '' @ err_str e)]))"
  by (simp_all add: cleanup_def split: option.splits prod.splits)

















subsection \<open>Failures of the setup phase\<close>
























end
